theory Spec2Isabelle
  imports Main "HOL-Library.AList"
begin

section \<open>Data model\<close>

text \<open>
  The entities of \<^verbatim>\<open>types/index.ts\<close>. A JavaScript \<^verbatim>\<open>Date\<close> is its time value, the
  milliseconds since the epoch, as an \<open>int\<close>; the comparisons \<^verbatim>\<open>a.updatedAt > b.updatedAt\<close>
  and \<^verbatim>\<open>getTime()\<close> of the source read exactly this number. Field names carry the record's
  name as a prefix, since HOL record fields share one name space.
\<close>

record Note =
  note_id :: string
  note_title :: string
  note_content :: string
  note_color :: string
  note_isPinned :: bool
  note_labels :: "string list"
  note_images :: "string list"
  note_audioTranscript :: "string option"
  note_createdAt :: int
  note_updatedAt :: int

record ChatMessage =
  msg_id :: string
  msg_text :: string
  msg_isUser :: bool
  msg_timestamp :: int

record ChatThread =
  thread_id :: string
  thread_title :: string
  thread_messages :: "ChatMessage list"
  thread_createdAt :: int
  thread_updatedAt :: int

record Label =
  label_id :: string
  label_name :: string
  label_color :: "string option"

record AuthUser =
  user_id :: string
  user_email :: string
  user_name :: string

datatype optype = Create | Update | Delete

datatype collection = Notes | ChatThreads | Labels

text \<open>
  The field \<^verbatim>\<open>data: any\<close> of a pending operation. The service enqueues a note, a chat thread
  or the object \<^verbatim>\<open>{ id: noteId }\<close>. \<open>NoteObj\<close> and \<open>ThreadObj\<close> are the objects in memory,
  whose date fields are \<^verbatim>\<open>Date\<close> objects; \<open>NoteParsed\<close> and \<open>ThreadParsed\<close> are what
  \<^verbatim>\<open>JSON.parse\<close> gives back for them: the same fields, the dates being ISO-8601 strings.
\<close>

datatype payload =
    NoteObj Note
  | NoteParsed Note
  | ThreadObj ChatThread
  | ThreadParsed ChatThread
  | LabelObj Label
  | IdObj string

fun payload_id :: "payload \<Rightarrow> string" where
  "payload_id (NoteObj n) = note_id n"
| "payload_id (NoteParsed n) = note_id n"
| "payload_id (ThreadObj t) = thread_id t"
| "payload_id (ThreadParsed t) = thread_id t"
| "payload_id (LabelObj l) = label_id l"
| "payload_id (IdObj i) = i"

record PendingOperation =
  op_id :: string
  op_type :: optype
  op_collection :: collection
  op_data :: payload
  op_timestamp :: int
  op_retryCount :: nat

text \<open>
  What \<^verbatim>\<open>JSON.parse(JSON.stringify(ops))\<close> holds for one operation: every field but the
  timestamp as it was, the payload as parsed, and the timestamp as the ISO-8601 string of
  its instant. \<open>Iso t\<close> stands for the string \<^verbatim>\<open>new Date(t).toISOString()\<close>.
\<close>

datatype isoString = Iso int

record StoredOperation =
  sop_id :: string
  sop_type :: optype
  sop_collection :: collection
  sop_data :: payload
  sop_timestamp :: isoString
  sop_retryCount :: nat

text \<open>
  A value of AsyncStorage: the JSON text under a key, by what it parses to. \<open>Malformed\<close> is
  any text that does not parse to the array the reader expects.
\<close>

datatype blob =
    NotesJson "Note list"
  | ThreadsJson "ChatThread list"
  | LabelsJson "Label list"
  | OpsJson "StoredOperation list"
  | TimeJson isoString
  | UserJson AuthUser
  | Malformed

datatype error = StorageFailure | ParseFailure | RemoteFailure string | TypeError

text \<open>The calls the service makes on \<^verbatim>\<open>databaseService\<close>, as they appear in the trace.\<close>

datatype rcall =
    GetNotes string
  | GetChatThreads string
  | GetLabels string
  | SaveNote Note string
  | CreateNote payload
  | UpdateNote string payload
  | DeleteNote string
  | CreateChatThread payload
  | UpdateChatThread string payload
  | DeleteChatThread string
  | CreateLabel payload
  | DeleteLabel string

datatype effect =
    StorageGet string
  | StorageSet string
  | Remote rcall
  | IndexNote string
  | UnindexNote string

text \<open>
  \<^verbatim>\<open>databaseService\<close> and \<^verbatim>\<open>pineconeService\<close> as the sync service sees them: every method
  returns a promise, which resolves to a value or rejects with an error.
\<close>

record remote =
  r_getNotes :: "string \<Rightarrow> error + Note list"
  r_getChatThreads :: "string \<Rightarrow> error + ChatThread list"
  r_getLabels :: "string \<Rightarrow> error + Label list"
  r_saveNote :: "Note \<Rightarrow> string \<Rightarrow> error + Note option"
  r_createNote :: "payload \<Rightarrow> error + Note option"
  r_updateNote :: "string \<Rightarrow> payload \<Rightarrow> error + Note option"
  r_deleteNote :: "string \<Rightarrow> error + bool"
  r_createChatThread :: "payload \<Rightarrow> error + ChatThread option"
  r_updateChatThread :: "string \<Rightarrow> payload \<Rightarrow> error + ChatThread option"
  r_deleteChatThread :: "string \<Rightarrow> error + bool"
  r_createLabel :: "payload \<Rightarrow> error + Label option"
  r_deleteLabel :: "string \<Rightarrow> error + bool"
  r_indexNote :: "Note \<Rightarrow> string \<Rightarrow> error + unit"
  r_unindexNote :: "string \<Rightarrow> error + unit"

text \<open>
  The state the service reads and writes: its own fields (\<^verbatim>\<open>syncStatus\<close>,
  \<^verbatim>\<open>pendingOperations\<close>), the current user of \<^verbatim>\<open>authService\<close>, AsyncStorage (\<open>storeOk\<close>
  false makes every access fail), the clock, the collation of the device's locale
  (\<^verbatim>\<open>a.localeCompare(b)\<close>), and the trace of the calls made so far.
\<close>

record world =
  lastSyncTime :: "int option"
  isOnline :: bool
  isSyncing :: bool
  pendingChanges :: nat
  conflictCount :: nat
  pendingOperations :: "PendingOperation list"
  currentUser :: "AuthUser option"
  store :: "string \<Rightarrow> blob option"
  storeOk :: bool
  clock :: nat
  localeCompare :: "string \<Rightarrow> string \<Rightarrow> int"
  trace :: "effect list"

definition MAX_RETRY_COUNT :: nat where
  "MAX_RETRY_COUNT = 3"

section \<open>AsyncStorage\<close>

definition getItem :: "string \<Rightarrow> world \<Rightarrow> (error + blob option) \<times> world" where
  "getItem k w =
     (let w' = w\<lparr>trace := trace w @ [StorageGet k]\<rparr>
      in if storeOk w then (Inr (store w k), w') else (Inl StorageFailure, w'))"

definition setItem :: "string \<Rightarrow> blob \<Rightarrow> world \<Rightarrow> (error + unit) \<times> world" where
  "setItem k v w =
     (let w' = w\<lparr>trace := trace w @ [StorageSet k]\<rparr>
      in if storeOk w then (Inr (), w'\<lparr>store := (store w)(k \<mapsto> v)\<rparr>)
         else (Inl StorageFailure, w'))"

section \<open>The pending-operation queue\<close>

fun optype_name :: "optype \<Rightarrow> string" where
  "optype_name Create = ''create''"
| "optype_name Update = ''update''"
| "optype_name Delete = ''delete''"

fun digit_char :: "nat \<Rightarrow> char" where
  "digit_char n = char_of (48 + n)"

fun decimal :: "nat \<Rightarrow> string" where
  "decimal n = (if n < 10 then [digit_char n] else decimal (n div 10) @ [digit_char (n mod 10)])"

text \<open>\<^verbatim>\<open>JSON.stringify\<close> followed by \<^verbatim>\<open>JSON.parse\<close> on a payload: a \<^verbatim>\<open>Date\<close> comes back as a string.\<close>

fun json_payload :: "payload \<Rightarrow> payload" where
  "json_payload (NoteObj n) = NoteParsed n"
| "json_payload (ThreadObj t) = ThreadParsed t"
| "json_payload p = p"

definition stringify_op :: "PendingOperation \<Rightarrow> StoredOperation" where
  "stringify_op p =
     \<lparr>sop_id = op_id p, sop_type = op_type p, sop_collection = op_collection p,
      sop_data = json_payload (op_data p), sop_timestamp = Iso (op_timestamp p),
      sop_retryCount = op_retryCount p\<rparr>"

fun newDate :: "isoString \<Rightarrow> int" where
  "newDate (Iso t) = t"


definition savePendingOperations :: "world \<Rightarrow> world" where
  "savePendingOperations w =
     (case setItem ''pendingOperations'' (OpsJson (map stringify_op (pendingOperations w))) w of
        (Inr _, w') \<Rightarrow> w'
      | (Inl _, w') \<Rightarrow> w')"


definition addPendingOperation :: "optype \<Rightarrow> collection \<Rightarrow> payload \<Rightarrow> world \<Rightarrow> world" where
  "addPendingOperation ty coll dat w =
     (let operation =
            \<lparr>op_id = (if payload_id dat \<noteq> [] then payload_id dat
                      else optype_name ty @ ''_'' @ decimal (clock w)),
             op_type = ty, op_collection = coll, op_data = dat,
             op_timestamp = int (clock w), op_retryCount = 0\<rparr>;
          w1 = w\<lparr>pendingOperations := pendingOperations w @ [operation]\<rparr>;
          w2 = w1\<lparr>pendingChanges := length (pendingOperations w1)\<rparr>
      in savePendingOperations w2)"

section \<open>Merging\<close>

text \<open>
  A JavaScript \<^verbatim>\<open>Map\<close> keeps its keys in insertion order, and \<^verbatim>\<open>set\<close> on a key that is
  present replaces the value where it stands: an association list under \<open>AList.update\<close>.
  \<^verbatim>\<open>Array.prototype.sort\<close> with a comparator is a stable sort: \<open>js_sort\<close> inserts each element
  before the first one that the comparator does not put ahead of it.
\<close>

fun js_insert :: "('a \<Rightarrow> 'a \<Rightarrow> int) \<Rightarrow> 'a \<Rightarrow> 'a list \<Rightarrow> 'a list" where
  "js_insert cmp x [] = [x]"
| "js_insert cmp x (y # ys) = (if cmp x y \<le> 0 then x # y # ys else y # js_insert cmp x ys)"

definition js_sort :: "('a \<Rightarrow> 'a \<Rightarrow> int) \<Rightarrow> 'a list \<Rightarrow> 'a list" where
  "js_sort cmp xs = foldr (js_insert cmp) xs []"

type_synonym 'a jsmap = "(string \<times> 'a) list"

definition map_set :: "string \<Rightarrow> 'a \<Rightarrow> 'a jsmap \<Rightarrow> 'a jsmap" where
  "map_set k v m = AList.update k v m"

definition map_get :: "'a jsmap \<Rightarrow> string \<Rightarrow> 'a option" where
  "map_get m k = map_of m k"

definition map_values :: "'a jsmap \<Rightarrow> 'a list" where
  "map_values m = map snd m"

fun seed_notes :: "Note list \<Rightarrow> Note jsmap \<Rightarrow> Note jsmap" where
  "seed_notes [] m = m"
| "seed_notes (n # ns) m = seed_notes ns (map_set (note_id n) n m)"

text \<open>The loop of \<^verbatim>\<open>mergeNotes\<close> over the cloud notes; it enqueues as it goes.\<close>

fun mergeNotes_loop :: "Note list \<Rightarrow> Note jsmap \<Rightarrow> world \<Rightarrow> Note jsmap \<times> world" where
  "mergeNotes_loop [] m w = (m, w)"
| "mergeNotes_loop (cloudNote # rest) m w =
     (case map_get m (note_id cloudNote) of
        None \<Rightarrow> mergeNotes_loop rest (map_set (note_id cloudNote) cloudNote m) w
      | Some localNote \<Rightarrow>
          if note_updatedAt cloudNote > note_updatedAt localNote
          then mergeNotes_loop rest (map_set (note_id cloudNote) cloudNote m) w
          else if note_updatedAt localNote > note_updatedAt cloudNote
          then mergeNotes_loop rest m (addPendingOperation Update Notes (NoteObj localNote) w)
          else mergeNotes_loop rest m w)"

definition mergeNotes :: "Note list \<Rightarrow> Note list \<Rightarrow> world \<Rightarrow> Note list \<times> world" where
  "mergeNotes localNotes cloudNotes w =
     (case mergeNotes_loop cloudNotes (seed_notes localNotes []) w of
        (m, w') \<Rightarrow>
          (js_sort (\<lambda>a b. note_updatedAt b - note_updatedAt a) (map_values m), w'))"

fun seed_threads :: "ChatThread list \<Rightarrow> ChatThread jsmap \<Rightarrow> ChatThread jsmap" where
  "seed_threads [] m = m"
| "seed_threads (t # ts) m = seed_threads ts (map_set (thread_id t) t m)"

fun mergeChatThreads_loop :: "ChatThread list \<Rightarrow> ChatThread jsmap \<Rightarrow> ChatThread jsmap" where
  "mergeChatThreads_loop [] m = m"
| "mergeChatThreads_loop (cloudThread # rest) m =
     (case map_get m (thread_id cloudThread) of
        None \<Rightarrow> mergeChatThreads_loop rest (map_set (thread_id cloudThread) cloudThread m)
      | Some localThread \<Rightarrow>
          if thread_updatedAt cloudThread > thread_updatedAt localThread
          then mergeChatThreads_loop rest (map_set (thread_id cloudThread) cloudThread m)
          else mergeChatThreads_loop rest m)"

definition mergeChatThreads :: "ChatThread list \<Rightarrow> ChatThread list \<Rightarrow> ChatThread list" where
  "mergeChatThreads localThreads cloudThreads =
     js_sort (\<lambda>a b. thread_updatedAt b - thread_updatedAt a)
       (map_values (mergeChatThreads_loop cloudThreads (seed_threads localThreads [])))"

fun seed_labels :: "Label list \<Rightarrow> Label jsmap \<Rightarrow> Label jsmap" where
  "seed_labels [] m = m"
| "seed_labels (l # ls) m = seed_labels ls (map_set (label_id l) l m)"

text \<open>
  \<^verbatim>\<open>mergeLabels\<close> sorts with \<^verbatim>\<open>a.name.localeCompare(b.name)\<close>, whose order depends on the
  locale of the device; the comparison is the first argument.
\<close>

definition mergeLabels ::
  "(string \<Rightarrow> string \<Rightarrow> int) \<Rightarrow> Label list \<Rightarrow> Label list \<Rightarrow> Label list" where
  "mergeLabels compare localLabels cloudLabels =
     js_sort (\<lambda>a b. compare (label_name a) (label_name b))
       (map_values (seed_labels cloudLabels (seed_labels localLabels [])))"

section \<open>Local storage operations\<close>

text \<open>
  Every reader catches what \<^verbatim>\<open>AsyncStorage.getItem\<close>, \<^verbatim>\<open>JSON.parse\<close> and the mapping over the
  parsed array throw, and returns the empty array; every writer catches and logs. A key is
  taken to hold text that this service wrote, or text that does not parse to the expected
  array. The date fields are revived with \<^verbatim>\<open>new Date\<close>, so a stored collection reads back as
  the entities that were written.
\<close>

definition getLocalNotes :: "string \<Rightarrow> world \<Rightarrow> Note list \<times> world" where
  "getLocalNotes userId w =
     (case getItem (''notes_'' @ userId) w of
        (Inr (Some (NotesJson ns)), w') \<Rightarrow> (ns, w')
      | (Inr _, w') \<Rightarrow> ([], w')
      | (Inl _, w') \<Rightarrow> ([], w'))"

definition saveLocalNotes :: "string \<Rightarrow> Note list \<Rightarrow> world \<Rightarrow> world" where
  "saveLocalNotes userId notes w =
     (case setItem (''notes_'' @ userId) (NotesJson notes) w of
        (Inr _, w') \<Rightarrow> w'
      | (Inl _, w') \<Rightarrow> w')"

fun findIndex :: "('a \<Rightarrow> bool) \<Rightarrow> 'a list \<Rightarrow> nat option" where
  "findIndex P [] = None"
| "findIndex P (x # xs) = (if P x then Some 0 else map_option Suc (findIndex P xs))"

definition updateLocalNote :: "string \<Rightarrow> Note \<Rightarrow> world \<Rightarrow> world" where
  "updateLocalNote userId note w =
     (case getLocalNotes userId w of
        (notes, w1) \<Rightarrow>
          (case findIndex (\<lambda>n. note_id n = note_id note) notes of
             Some index \<Rightarrow> saveLocalNotes userId (notes[index := note]) w1
           | None \<Rightarrow> saveLocalNotes userId (note # notes) w1))"

definition removeLocalNote :: "string \<Rightarrow> string \<Rightarrow> world \<Rightarrow> world" where
  "removeLocalNote userId noteId w =
     (case getLocalNotes userId w of
        (notes, w1) \<Rightarrow> saveLocalNotes userId (filter (\<lambda>n. note_id n \<noteq> noteId) notes) w1)"

definition getLocalChatThreads :: "string \<Rightarrow> world \<Rightarrow> ChatThread list \<times> world" where
  "getLocalChatThreads userId w =
     (case getItem (''chatThreads_'' @ userId) w of
        (Inr (Some (ThreadsJson ts)), w') \<Rightarrow> (ts, w')
      | (Inr _, w') \<Rightarrow> ([], w')
      | (Inl _, w') \<Rightarrow> ([], w'))"

definition saveLocalChatThreads :: "string \<Rightarrow> ChatThread list \<Rightarrow> world \<Rightarrow> world" where
  "saveLocalChatThreads userId threads w =
     (case setItem (''chatThreads_'' @ userId) (ThreadsJson threads) w of
        (Inr _, w') \<Rightarrow> w'
      | (Inl _, w') \<Rightarrow> w')"

definition updateLocalChatThread :: "string \<Rightarrow> ChatThread \<Rightarrow> world \<Rightarrow> world" where
  "updateLocalChatThread userId thread w =
     (case getLocalChatThreads userId w of
        (threads, w1) \<Rightarrow>
          (case findIndex (\<lambda>t. thread_id t = thread_id thread) threads of
             Some index \<Rightarrow> saveLocalChatThreads userId (threads[index := thread]) w1
           | None \<Rightarrow> saveLocalChatThreads userId (thread # threads) w1))"

definition getLocalLabels :: "string \<Rightarrow> world \<Rightarrow> Label list \<times> world" where
  "getLocalLabels userId w =
     (case getItem (''labels_'' @ userId) w of
        (Inr (Some (LabelsJson ls)), w') \<Rightarrow> (ls, w')
      | (Inr _, w') \<Rightarrow> ([], w')
      | (Inl _, w') \<Rightarrow> ([], w'))"

definition saveLocalLabels :: "string \<Rightarrow> Label list \<Rightarrow> world \<Rightarrow> world" where
  "saveLocalLabels userId labels w =
     (case setItem (''labels_'' @ userId) (LabelsJson labels) w of
        (Inr _, w') \<Rightarrow> w'
      | (Inl _, w') \<Rightarrow> w')"

definition loadLastSyncTime :: "world \<Rightarrow> world" where
  "loadLastSyncTime w =
     (case getItem ''lastSyncTime'' w of
        (Inr (Some (TimeJson isoText)), w') \<Rightarrow> w'\<lparr>lastSyncTime := Some (newDate isoText)\<rparr>
      | (Inr _, w') \<Rightarrow> w'
      | (Inl _, w') \<Rightarrow> w')"

definition saveLastSyncTime :: "world \<Rightarrow> world" where
  "saveLastSyncTime w =
     (case lastSyncTime w of
        Some t \<Rightarrow> (case setItem ''lastSyncTime'' (TimeJson (Iso t)) w of
                     (Inr _, w') \<Rightarrow> w'
                   | (Inl _, w') \<Rightarrow> w')
      | None \<Rightarrow> w)"

section \<open>Search index\<close>

definition is_space :: "char \<Rightarrow> bool" where
  "is_space c \<longleftrightarrow> c \<in> set [CHR '' '', CHR 0x09, CHR 0x0A, CHR 0x0B, CHR 0x0C, CHR 0x0D]"

definition trim :: "string \<Rightarrow> string" where
  "trim s = rev (dropWhile is_space (rev (dropWhile is_space s)))"

fun join :: "string \<Rightarrow> string list \<Rightarrow> string" where
  "join sep [] = []"
| "join sep [x] = x"
| "join sep (x # y # ys) = x @ sep @ join sep (y # ys)"

definition indexNote :: "remote \<Rightarrow> Note \<Rightarrow> string \<Rightarrow> world \<Rightarrow> world" where
  "indexNote rem note userId w =
     (let parts = [note_title note, note_content note,
                   (case note_audioTranscript note of None \<Rightarrow> [] | Some t \<Rightarrow> t),
                   join '' '' (note_labels note)];
          searchText = trim (join '' '' (filter (\<lambda>p. p \<noteq> []) parts))
      in if searchText \<noteq> []
         then (case r_indexNote rem note userId of
                 Inr _ \<Rightarrow> w\<lparr>trace := trace w @ [IndexNote (note_id note)]\<rparr>
               | Inl _ \<Rightarrow> w\<lparr>trace := trace w @ [IndexNote (note_id note)]\<rparr>)
         else w)"

fun indexNotes :: "remote \<Rightarrow> Note list \<Rightarrow> string \<Rightarrow> world \<Rightarrow> world" where
  "indexNotes rem [] userId w = w"
| "indexNotes rem (note # rest) userId w = indexNotes rem rest userId (indexNote rem note userId w)"

definition updateSearchIndex :: "remote \<Rightarrow> Note list \<Rightarrow> string \<Rightarrow> world \<Rightarrow> world" where
  "updateSearchIndex rem notes userId w =
     (let notesWithContent =
            filter (\<lambda>note. trim (note_title note) \<noteq> [] \<or> trim (note_content note) \<noteq> []
                             \<or> (case note_audioTranscript note of None \<Rightarrow> False | Some t \<Rightarrow> t \<noteq> []))
                   notes
      in indexNotes rem notesWithContent userId w)"

section \<open>Syncing the collections\<close>

text \<open>
  Each of the three functions wraps its body in \<^verbatim>\<open>try\<close>, logs in \<^verbatim>\<open>catch\<close> and throws the error
  again: \<open>Inl\<close> is that error, and the world beside it is the one reached when it was thrown.
\<close>

definition syncNotes :: "remote \<Rightarrow> string \<Rightarrow> world \<Rightarrow> (error + unit) \<times> world" where
  "syncNotes rem userId w =
     (case getLocalNotes userId w of
        (localNotes, w1) \<Rightarrow>
          (let w2 = w1\<lparr>trace := trace w1 @ [Remote (GetNotes userId)]\<rparr>
           in case r_getNotes rem userId of
                Inl e \<Rightarrow> (Inl e, w2)
              | Inr cloudNotes \<Rightarrow>
                  (case mergeNotes localNotes cloudNotes w2 of
                     (mergedNotes, w3) \<Rightarrow>
                       (Inr (), updateSearchIndex rem mergedNotes userId
                                  (saveLocalNotes userId mergedNotes w3)))))"

definition syncChatThreads :: "remote \<Rightarrow> string \<Rightarrow> world \<Rightarrow> (error + unit) \<times> world" where
  "syncChatThreads rem userId w =
     (case getLocalChatThreads userId w of
        (localThreads, w1) \<Rightarrow>
          (let w2 = w1\<lparr>trace := trace w1 @ [Remote (GetChatThreads userId)]\<rparr>
           in case r_getChatThreads rem userId of
                Inl e \<Rightarrow> (Inl e, w2)
              | Inr cloudThreads \<Rightarrow>
                  (Inr (), saveLocalChatThreads userId
                             (mergeChatThreads localThreads cloudThreads) w2)))"

definition syncLabels :: "remote \<Rightarrow> string \<Rightarrow> world \<Rightarrow> (error + unit) \<times> world" where
  "syncLabels rem userId w =
     (case getLocalLabels userId w of
        (localLabels, w1) \<Rightarrow>
          (let w2 = w1\<lparr>trace := trace w1 @ [Remote (GetLabels userId)]\<rparr>
           in case r_getLabels rem userId of
                Inl e \<Rightarrow> (Inl e, w2)
              | Inr cloudLabels \<Rightarrow>
                  (Inr (), saveLocalLabels userId
                             (mergeLabels (localeCompare w2) localLabels cloudLabels) w2)))"

section \<open>Replaying the pending operations\<close>

text \<open>
  A replay logs the remote call it makes and gives \<open>Inr success\<close>, or \<open>Inl\<close> when the call
  rejects. The label handler has the cases \<^verbatim>\<open>'create'\<close> and \<^verbatim>\<open>'delete'\<close> only; its
  \<^verbatim>\<open>default\<close> returns \<^verbatim>\<open>false\<close> with no call.
\<close>

definition called :: "rcall \<Rightarrow> world \<Rightarrow> world" where
  "called c w = w\<lparr>trace := trace w @ [Remote c]\<rparr>"

definition truthy :: "error + 'a option \<Rightarrow> error + bool" where
  "truthy r = (case r of Inl e \<Rightarrow> Inl e | Inr x \<Rightarrow> Inr (x \<noteq> None))"

definition processPendingNoteOperation ::
  "remote \<Rightarrow> PendingOperation \<Rightarrow> world \<Rightarrow> (error + bool) \<times> world" where
  "processPendingNoteOperation rem operation w =
     (case op_type operation of
        Create \<Rightarrow> (truthy (r_createNote rem (op_data operation)),
                   called (CreateNote (op_data operation)) w)
      | Update \<Rightarrow> (truthy (r_updateNote rem (payload_id (op_data operation)) (op_data operation)),
                   called (UpdateNote (payload_id (op_data operation)) (op_data operation)) w)
      | Delete \<Rightarrow> (r_deleteNote rem (payload_id (op_data operation)),
                   called (DeleteNote (payload_id (op_data operation))) w))"

definition processPendingChatThreadOperation ::
  "remote \<Rightarrow> PendingOperation \<Rightarrow> world \<Rightarrow> (error + bool) \<times> world" where
  "processPendingChatThreadOperation rem operation w =
     (case op_type operation of
        Create \<Rightarrow> (truthy (r_createChatThread rem (op_data operation)),
                   called (CreateChatThread (op_data operation)) w)
      | Update \<Rightarrow> (truthy (r_updateChatThread rem (payload_id (op_data operation))
                             (op_data operation)),
                   called (UpdateChatThread (payload_id (op_data operation)) (op_data operation)) w)
      | Delete \<Rightarrow> (r_deleteChatThread rem (payload_id (op_data operation)),
                   called (DeleteChatThread (payload_id (op_data operation))) w))"

definition processPendingLabelOperation ::
  "remote \<Rightarrow> PendingOperation \<Rightarrow> world \<Rightarrow> (error + bool) \<times> world" where
  "processPendingLabelOperation rem operation w =
     (case op_type operation of
        Create \<Rightarrow> (truthy (r_createLabel rem (op_data operation)),
                   called (CreateLabel (op_data operation)) w)
      | Delete \<Rightarrow> (r_deleteLabel rem (payload_id (op_data operation)),
                   called (DeleteLabel (payload_id (op_data operation))) w)
      | Update \<Rightarrow> (Inr False, w))"

definition replay :: "remote \<Rightarrow> PendingOperation \<Rightarrow> world \<Rightarrow> (error + bool) \<times> world" where
  "replay rem operation w =
     (case op_collection operation of
        Notes \<Rightarrow> processPendingNoteOperation rem operation w
      | ChatThreads \<Rightarrow> processPendingChatThreadOperation rem operation w
      | Labels \<Rightarrow> processPendingLabelOperation rem operation w)"

text \<open>
  The \<^verbatim>\<open>for\<close> loop of \<^verbatim>\<open>processPendingOperations\<close>. It returns the operations with their
  retry counts as the loop leaves them, and \<^verbatim>\<open>successfulOperations\<close>, the ids to remove.
  A replay that returns \<^verbatim>\<open>false\<close> counts a retry and, at the ceiling, puts the id on the list;
  a replay that throws is caught and counts a retry, nothing more.
\<close>

fun drain_loop ::
  "remote \<Rightarrow> PendingOperation list \<Rightarrow> string list \<Rightarrow> world
     \<Rightarrow> (PendingOperation list \<times> string list) \<times> world" where
  "drain_loop rem [] successfulOperations w = (([], successfulOperations), w)"
| "drain_loop rem (operation # rest) successfulOperations w =
     (case replay rem operation w of
        (Inr True, w') \<Rightarrow>
          (case drain_loop rem rest (successfulOperations @ [op_id operation]) w' of
             ((ops, ids), w'') \<Rightarrow> ((operation # ops, ids), w''))
      | (Inr False, w') \<Rightarrow>
          (let operation' = operation\<lparr>op_retryCount := op_retryCount operation + 1\<rparr>
           in if op_retryCount operation' \<ge> MAX_RETRY_COUNT
              then (case drain_loop rem rest (successfulOperations @ [op_id operation]) w' of
                      ((ops, ids), w'') \<Rightarrow> ((operation' # ops, ids), w''))
              else (case drain_loop rem rest successfulOperations w' of
                      ((ops, ids), w'') \<Rightarrow> ((operation' # ops, ids), w'')))
      | (Inl _, w') \<Rightarrow>
          (let operation' = operation\<lparr>op_retryCount := op_retryCount operation + 1\<rparr>
           in case drain_loop rem rest successfulOperations w' of
                ((ops, ids), w'') \<Rightarrow> ((operation' # ops, ids), w'')))"

definition processPendingOperations :: "remote \<Rightarrow> world \<Rightarrow> world" where
  "processPendingOperations rem w =
     (if pendingOperations w = [] then w
      else case currentUser w of
             None \<Rightarrow> w
           | Some user \<Rightarrow>
               (case drain_loop rem (pendingOperations w) [] w of
                  ((ops, successfulOperations), w1) \<Rightarrow>
                    (let w2 = w1\<lparr>pendingOperations :=
                                   filter (\<lambda>p. op_id p \<notin> set successfulOperations) ops\<rparr>;
                         w3 = w2\<lparr>pendingChanges := length (pendingOperations w2)\<rparr>
                     in savePendingOperations w3)))"

section \<open>The sync cycle\<close>

text \<open>
  \<^verbatim>\<open>syncAll\<close>, run from its call to its return with nothing interleaved. The three guards
  return before the \<^verbatim>\<open>try\<close>; inside it the flag is set, the queue is drained and the three
  collections are synced in turn, one throw leaving for \<^verbatim>\<open>catch\<close>; \<^verbatim>\<open>finally\<close> clears the flag.
\<close>

definition finish_sync :: "world \<Rightarrow> bool \<times> world" where
  "finish_sync w =
     (let w1 = w\<lparr>lastSyncTime := Some (int (clock w))\<rparr>;
          w2 = saveLastSyncTime w1
      in (True, w2\<lparr>isSyncing := False\<rparr>))"

definition syncAll :: "remote \<Rightarrow> world \<Rightarrow> bool \<times> world" where
  "syncAll rem w =
     (if isSyncing w then (False, w)
      else case currentUser w of
             None \<Rightarrow> (False, w)
           | Some user \<Rightarrow>
               if \<not> isOnline w then (False, w)
               else
                 (let w0 = w\<lparr>isSyncing := True\<rparr>;
                      w1 = processPendingOperations rem w0
                  in case syncNotes rem (user_id user) w1 of
                       (Inl _, w2) \<Rightarrow> (False, w2\<lparr>isSyncing := False\<rparr>)
                     | (Inr _, w2) \<Rightarrow>
                         (case syncChatThreads rem (user_id user) w2 of
                            (Inl _, w3) \<Rightarrow> (False, w3\<lparr>isSyncing := False\<rparr>)
                          | (Inr _, w3) \<Rightarrow>
                              (case syncLabels rem (user_id user) w3 of
                                 (Inl _, w4) \<Rightarrow> (False, w4\<lparr>isSyncing := False\<rparr>)
                               | (Inr _, w4) \<Rightarrow> finish_sync w4))))"

section \<open>The immediate write path\<close>

datatype completion = Returned | Raised error

text \<open>
  \<^verbatim>\<open>user?.id || 'guest'\<close>: the id of the user, or \<^verbatim>\<open>'guest'\<close> when there is no user or the id
  is the empty string.
\<close>

definition localUserId :: "AuthUser option \<Rightarrow> string" where
  "localUserId user =
     (case user of None \<Rightarrow> ''guest''
      | Some u \<Rightarrow> if user_id u = [] then ''guest'' else user_id u)"

definition saveNote :: "remote \<Rightarrow> Note \<Rightarrow> world \<Rightarrow> completion \<times> world" where
  "saveNote rem note w =
     (let user = currentUser w;
          w1 = updateLocalNote (localUserId user) note w
      in case user of
           None \<Rightarrow> (Returned, w1)
         | Some u \<Rightarrow>
             if user_id u \<noteq> ''guest'' \<and> isOnline w1
             then (case r_saveNote rem note (user_id u) of
                     Inr (Some savedNote) \<Rightarrow>
                       (Returned, indexNote rem note (user_id u) (called (SaveNote note (user_id u)) w1))
                   | Inr None \<Rightarrow>
                       (Returned, addPendingOperation Update Notes (NoteObj note)
                                    (called (SaveNote note (user_id u)) w1))
                   | Inl cloudError \<Rightarrow>
                       (Returned, addPendingOperation Update Notes (NoteObj note)
                                    (called (SaveNote note (user_id u)) w1)))
             else if user_id u = ''guest'' then (Returned, w1)
             else (Returned, addPendingOperation Update Notes (NoteObj note) w1))"

definition unindexNote :: "remote \<Rightarrow> string \<Rightarrow> world \<Rightarrow> world" where
  "unindexNote rem noteId w =
     (case r_unindexNote rem noteId of
        Inr _ \<Rightarrow> w\<lparr>trace := trace w @ [UnindexNote noteId]\<rparr>
      | Inl _ \<Rightarrow> w\<lparr>trace := trace w @ [UnindexNote noteId]\<rparr>)"

definition deleteNote :: "remote \<Rightarrow> string \<Rightarrow> world \<Rightarrow> completion \<times> world" where
  "deleteNote rem noteId w =
     (let user = currentUser w;
          w1 = removeLocalNote (localUserId user) noteId w
      in case user of
           None \<Rightarrow> (Returned, w1)
         | Some u \<Rightarrow>
             if user_id u \<noteq> ''guest'' \<and> isOnline w1
             then (case r_deleteNote rem noteId of
                     Inr True \<Rightarrow> (Returned, unindexNote rem noteId (called (DeleteNote noteId) w1))
                   | Inr False \<Rightarrow>
                       (Returned, unindexNote rem noteId
                                    (addPendingOperation Delete Notes (IdObj noteId)
                                       (called (DeleteNote noteId) w1)))
                   | Inl cloudError \<Rightarrow>
                       (Returned, unindexNote rem noteId
                                    (addPendingOperation Delete Notes (IdObj noteId)
                                       (called (DeleteNote noteId) w1))))
             else if user_id u = ''guest'' then (Returned, w1)
             else (Returned, addPendingOperation Delete Notes (IdObj noteId) w1))"

definition saveChatThread :: "remote \<Rightarrow> ChatThread \<Rightarrow> world \<Rightarrow> completion \<times> world" where
  "saveChatThread rem thread w =
     (case currentUser w of
        None \<Rightarrow> (Returned, updateLocalChatThread ''guest'' thread w)
      | Some u \<Rightarrow>
          (let w1 = updateLocalChatThread (user_id u) thread w
           in if isOnline w1
              then (case r_updateChatThread rem (thread_id thread) (ThreadObj thread) of
                      Inr (Some savedThread) \<Rightarrow>
                        (Returned, called (UpdateChatThread (thread_id thread) (ThreadObj thread)) w1)
                    | Inr None \<Rightarrow>
                        (Returned, addPendingOperation Update ChatThreads (ThreadObj thread)
                                     (called (UpdateChatThread (thread_id thread) (ThreadObj thread)) w1))
                    | Inl e \<Rightarrow>
                        (Returned, addPendingOperation Update ChatThreads (ThreadObj thread)
                                     (called (UpdateChatThread (thread_id thread) (ThreadObj thread)) w1)))
              else (Returned, addPendingOperation Update ChatThreads (ThreadObj thread) w1)))"

section \<open>\<^verbatim>\<open>databaseService.saveNote\<close>\<close>

text \<open>
  The Supabase client answers a query with a row or with an error that carries a code.
  \<^verbatim>\<open>updateNote\<close> and \<^verbatim>\<open>createNote\<close> throw that error inside their own \<^verbatim>\<open>try\<close> and return
  \<^verbatim>\<open>null\<close> from the \<^verbatim>\<open>catch\<close>. The second component lists the queries sent.
\<close>

datatype sbresult = Row Note | SbError string

datatype sbcall = SbUpdate string | SbInsert string

record supabase =
  sb_update :: "string \<Rightarrow> Note \<Rightarrow> sbresult"
  sb_insert :: "string \<Rightarrow> Note \<Rightarrow> sbresult"

definition db_updateNote ::
  "supabase \<Rightarrow> string \<Rightarrow> Note \<Rightarrow> (error + Note option) \<times> sbcall list" where
  "db_updateNote sb noteId updates =
     (case sb_update sb noteId updates of
        Row n \<Rightarrow> (Inr (Some n), [SbUpdate noteId])
      | SbError code \<Rightarrow> (Inr None, [SbUpdate noteId]))"

definition db_createNote ::
  "supabase \<Rightarrow> string \<Rightarrow> Note \<Rightarrow> (error + Note option) \<times> sbcall list" where
  "db_createNote sb userId noteData =
     (case sb_insert sb userId noteData of
        Row n \<Rightarrow> (Inr (Some n), [SbInsert userId])
      | SbError code \<Rightarrow> (Inr None, [SbInsert userId]))"

definition db_saveNote ::
  "supabase \<Rightarrow> Note \<Rightarrow> string \<Rightarrow> (error + Note option) \<times> sbcall list" where
  "db_saveNote sb note userId =
     (let create = (case db_createNote sb userId note of
                      (Inr createdNote, cs) \<Rightarrow> (Inr createdNote, cs)
                    | (Inl e, cs) \<Rightarrow> (Inr None, cs))
      in if note_id note \<noteq> [] \<and> note_id note \<noteq> ''temp''
         then (case db_updateNote sb (note_id note) note of
                 (Inr (Some updatedNote), cs) \<Rightarrow> (Inr (Some updatedNote), cs)
               | (Inr None, cs) \<Rightarrow> (fst create, cs @ snd create)
               | (Inl updateError, cs) \<Rightarrow>
                   if updateError = RemoteFailure ''PGRST116'' then (fst create, cs @ snd create)
                   else if updateError = RemoteFailure ''42501'' then (Inr None, cs)
                   else (Inr None, cs))
         else create)"

section \<open>Interleaving of the triggers\<close>

text \<open>
  \<^verbatim>\<open>syncAll\<close> is an \<^verbatim>\<open>async\<close> function on a single-threaded event loop: the code from its
  call to its first \<^verbatim>\<open>await\<close> runs without interruption, and so does the code between two
  awaits. A cycle that has passed the guards is suspended before one of its five steps;
  resuming it runs that step. Between two resumptions any other event may run: a trigger,
  which calls \<^verbatim>\<open>syncAll\<close> again, a save or a delete from the screen, a change of user.
\<close>

datatype stage = DrainQueue | NotesStage | ChatThreadsStage | LabelsStage | FinishStage

record cycle =
  cycle_stage :: stage
  cycle_user :: AuthUser

record system =
  sys_world :: world
  sys_cycles :: "cycle list"
  sys_results :: "bool list"

datatype trigger = PeriodicTimer | ConnectivityChange bool | AppBecameActive | ExplicitRefresh

datatype event =
    Fire trigger
  | Resume nat remote
  | UserSaveNote remote Note
  | UserDeleteNote remote string
  | UserSaveChatThread remote ChatThread
  | AuthChanged "AuthUser option"
  | ClockTick

text \<open>The call of \<^verbatim>\<open>syncAll\<close> up to its first \<^verbatim>\<open>await\<close>.\<close>

definition start_sync :: "system \<Rightarrow> system" where
  "start_sync s =
     (let w = sys_world s
      in if isSyncing w then s\<lparr>sys_results := sys_results s @ [False]\<rparr>
         else case currentUser w of
                None \<Rightarrow> s\<lparr>sys_results := sys_results s @ [False]\<rparr>
              | Some user \<Rightarrow>
                  if \<not> isOnline w then s\<lparr>sys_results := sys_results s @ [False]\<rparr>
                  else s\<lparr>sys_world := w\<lparr>isSyncing := True\<rparr>,
                         sys_cycles := sys_cycles s @ [\<lparr>cycle_stage = DrainQueue, cycle_user = user\<rparr>]\<rparr>)"

text \<open>
  The listeners: the interval callback of \<^verbatim>\<open>startPeriodicSync\<close>, the NetInfo listener, the
  AppState listener, and \<^verbatim>\<open>forcSync\<close> or the screen's own call.
\<close>

definition fire :: "trigger \<Rightarrow> system \<Rightarrow> system" where
  "fire t s =
     (case t of
        PeriodicTimer \<Rightarrow>
          if isOnline (sys_world s) \<and> \<not> isSyncing (sys_world s) then start_sync s else s
      | ConnectivityChange isConnected \<Rightarrow>
          (let wasOffline = \<not> isOnline (sys_world s);
               s' = s\<lparr>sys_world := (sys_world s)\<lparr>isOnline := isConnected\<rparr>\<rparr>
           in if wasOffline \<and> isConnected then start_sync s' else s')
      | AppBecameActive \<Rightarrow> if isOnline (sys_world s) then start_sync s else s
      | ExplicitRefresh \<Rightarrow> start_sync s)"

definition leave_cycle :: "nat \<Rightarrow> bool \<Rightarrow> world \<Rightarrow> system \<Rightarrow> system" where
  "leave_cycle i result w s =
     s\<lparr>sys_world := w\<lparr>isSyncing := False\<rparr>,
       sys_cycles := take i (sys_cycles s) @ drop (Suc i) (sys_cycles s),
       sys_results := sys_results s @ [result]\<rparr>"

definition advance_cycle :: "nat \<Rightarrow> stage \<Rightarrow> world \<Rightarrow> system \<Rightarrow> system" where
  "advance_cycle i next w s =
     s\<lparr>sys_world := w,
       sys_cycles := (sys_cycles s)[i := (sys_cycles s ! i)\<lparr>cycle_stage := next\<rparr>]\<rparr>"

definition resume :: "nat \<Rightarrow> remote \<Rightarrow> system \<Rightarrow> system" where
  "resume i rem s =
     (if i < length (sys_cycles s)
      then (let c = sys_cycles s ! i; w = sys_world s; userId = user_id (cycle_user c)
            in case cycle_stage c of
                 DrainQueue \<Rightarrow> advance_cycle i NotesStage (processPendingOperations rem w) s
               | NotesStage \<Rightarrow>
                   (case syncNotes rem userId w of
                      (Inl _, w') \<Rightarrow> leave_cycle i False w' s
                    | (Inr _, w') \<Rightarrow> advance_cycle i ChatThreadsStage w' s)
               | ChatThreadsStage \<Rightarrow>
                   (case syncChatThreads rem userId w of
                      (Inl _, w') \<Rightarrow> leave_cycle i False w' s
                    | (Inr _, w') \<Rightarrow> advance_cycle i LabelsStage w' s)
               | LabelsStage \<Rightarrow>
                   (case syncLabels rem userId w of
                      (Inl _, w') \<Rightarrow> leave_cycle i False w' s
                    | (Inr _, w') \<Rightarrow> advance_cycle i FinishStage w' s)
               | FinishStage \<Rightarrow> leave_cycle i True (snd (finish_sync w)) s)
      else s)"

definition step :: "event \<Rightarrow> system \<Rightarrow> system" where
  "step e s =
     (case e of
        Fire t \<Rightarrow> fire t s
      | Resume i rem \<Rightarrow> resume i rem s
      | UserSaveNote rem note \<Rightarrow> s\<lparr>sys_world := snd (saveNote rem note (sys_world s))\<rparr>
      | UserDeleteNote rem noteId \<Rightarrow> s\<lparr>sys_world := snd (deleteNote rem noteId (sys_world s))\<rparr>
      | UserSaveChatThread rem thread \<Rightarrow>
          s\<lparr>sys_world := snd (saveChatThread rem thread (sys_world s))\<rparr>
      | AuthChanged user \<Rightarrow> s\<lparr>sys_world := (sys_world s)\<lparr>currentUser := user\<rparr>\<rparr>
      | ClockTick \<Rightarrow> s\<lparr>sys_world := (sys_world s)\<lparr>clock := Suc (clock (sys_world s))\<rparr>\<rparr>)"

fun run :: "event list \<Rightarrow> system \<Rightarrow> system" where
  "run [] s = s"
| "run (e # es) s = run es (step e s)"

section \<open>Definitions used to state the properties\<close>

text \<open>The operation that \<^verbatim>\<open>addPendingOperation\<close> builds when the clock reads \<open>now\<close>.\<close>

definition new_operation :: "optype \<Rightarrow> collection \<Rightarrow> payload \<Rightarrow> nat \<Rightarrow> PendingOperation" where
  "new_operation ty coll dat now =
     \<lparr>op_id = (if payload_id dat \<noteq> [] then payload_id dat else optype_name ty @ ''_'' @ decimal now),
      op_type = ty, op_collection = coll, op_data = dat,
      op_timestamp = int now, op_retryCount = 0\<rparr>"

text \<open>What no operation but the sync cycle, the listeners and the clock touch.\<close>

definition same_mode :: "world \<Rightarrow> world \<Rightarrow> bool" where
  "same_mode w w' \<longleftrightarrow>
     isSyncing w' = isSyncing w \<and> isOnline w' = isOnline w \<and> currentUser w' = currentUser w
     \<and> storeOk w' = storeOk w \<and> clock w' = clock w \<and> localeCompare w' = localeCompare w"

text \<open>The invariant of the interleaving: one suspended cycle at most, and the flag is set exactly while there is one.\<close>

definition one_cycle :: "system \<Rightarrow> bool" where
  "one_cycle s \<longleftrightarrow>
     length (sys_cycles s) \<le> 1 \<and> (isSyncing (sys_world s) = (sys_cycles s \<noteq> []))"

text \<open>The entity of a given id in a collection: the first one, as \<^verbatim>\<open>Array.prototype.find\<close> gives it.\<close>

definition find_note :: "string \<Rightarrow> Note list \<Rightarrow> Note option" where
  "find_note i ns = find (\<lambda>n. note_id n = i) ns"



text \<open>
  Last write wins between the local and the remote copy of one id, by the timestamp \<open>ts\<close>:
  the remote copy is taken when there is no local one or when it is strictly newer; in
  every other case, the tie included, the local copy stays.
\<close>

definition lww :: "('a \<Rightarrow> int) \<Rightarrow> 'a option \<Rightarrow> 'a option \<Rightarrow> 'a option" where
  "lww ts localCopy remoteCopy =
     (case remoteCopy of
        None \<Rightarrow> localCopy
      | Some r \<Rightarrow> (case localCopy of
                    None \<Rightarrow> Some r
                  | Some l \<Rightarrow> if ts r > ts l then Some r else Some l))"

text \<open>The local winners: for each remote note in turn, the local copy when it is strictly newer.\<close>

definition localWinners :: "Note list \<Rightarrow> Note list \<Rightarrow> Note list" where
  "localWinners localNotes cloudNotes =
     List.map_filter
       (\<lambda>c. case find_note (note_id c) localNotes of
              None \<Rightarrow> None
            | Some l \<Rightarrow> if note_updatedAt l > note_updatedAt c then Some l else None)
       cloudNotes"

text \<open>A map in which every entity stands under its own id, each id once.\<close>

definition keyed :: "('a \<Rightarrow> string) \<Rightarrow> 'a jsmap \<Rightarrow> bool" where
  "keyed f m \<longleftrightarrow> distinct (map fst m) \<and> (\<forall>(k, v) \<in> set m. k = f v)"

text \<open>The local winners of the loop of \<^verbatim>\<open>mergeNotes\<close>, read off the map it starts from.\<close>

definition winners_in :: "Note jsmap \<Rightarrow> Note list \<Rightarrow> Note list" where
  "winners_in m cloudNotes =
     List.map_filter
       (\<lambda>c. case map_get m (note_id c) of
              None \<Rightarrow> None
            | Some l \<Rightarrow> if note_updatedAt l > note_updatedAt c then Some l else None)
       cloudNotes"



text \<open>
  What a replay of an operation answers: it depends on the operation and on the remote
  store, not on the state of the engine.
\<close>

definition outcome :: "remote \<Rightarrow> PendingOperation \<Rightarrow> error + bool" where
  "outcome rem p =
     (case op_collection p of
        Notes \<Rightarrow>
          (case op_type p of
             Create \<Rightarrow> truthy (r_createNote rem (op_data p))
           | Update \<Rightarrow> truthy (r_updateNote rem (payload_id (op_data p)) (op_data p))
           | Delete \<Rightarrow> r_deleteNote rem (payload_id (op_data p)))
      | ChatThreads \<Rightarrow>
          (case op_type p of
             Create \<Rightarrow> truthy (r_createChatThread rem (op_data p))
           | Update \<Rightarrow> truthy (r_updateChatThread rem (payload_id (op_data p)) (op_data p))
           | Delete \<Rightarrow> r_deleteChatThread rem (payload_id (op_data p)))
      | Labels \<Rightarrow>
          (case op_type p of
             Create \<Rightarrow> truthy (r_createLabel rem (op_data p))
           | Update \<Rightarrow> Inr False
           | Delete \<Rightarrow> r_deleteLabel rem (payload_id (op_data p))))"

text \<open>The operation as one pass of the loop leaves it, and whether the pass lists its id for removal.\<close>

definition attempted :: "remote \<Rightarrow> PendingOperation \<Rightarrow> PendingOperation" where
  "attempted rem p =
     (case outcome rem p of
        Inr True \<Rightarrow> p
      | Inr False \<Rightarrow> p\<lparr>op_retryCount := op_retryCount p + 1\<rparr>
      | Inl e \<Rightarrow> p\<lparr>op_retryCount := op_retryCount p + 1\<rparr>)"

definition listed :: "remote \<Rightarrow> PendingOperation \<Rightarrow> bool" where
  "listed rem p =
     (case outcome rem p of
        Inr True \<Rightarrow> True
      | Inr False \<Rightarrow> op_retryCount p + 1 \<ge> MAX_RETRY_COUNT
      | Inl e \<Rightarrow> False)"

definition drained :: "remote \<Rightarrow> PendingOperation list \<Rightarrow> PendingOperation list" where
  "drained rem ops =
     filter (\<lambda>p. op_id p \<notin> set (map op_id (filter (listed rem) ops))) (map (attempted rem) ops)"


text \<open>The remote calls and the storage writes of a trace, in order.\<close>

definition remote_calls :: "effect list \<Rightarrow> rcall list" where
  "remote_calls tr = List.map_filter (\<lambda>e. case e of Remote c \<Rightarrow> Some c | _ \<Rightarrow> None) tr"


text \<open>The effects of a call: what the trace gained from the state before to the state after.\<close>

definition new_effects :: "world \<Rightarrow> world \<Rightarrow> effect list" where
  "new_effects w w' = drop (length (trace w)) (trace w')"

text \<open>The notes that a key of AsyncStorage holds, as \<^verbatim>\<open>getLocalNotes\<close> reads them.\<close>

definition stored_notes :: "string \<Rightarrow> world \<Rightarrow> Note list" where
  "stored_notes k w = (case store w k of Some (NotesJson ns) \<Rightarrow> ns | _ \<Rightarrow> [])"


text \<open>\<^verbatim>\<open>updateLocalNote\<close> on the list: replace the first note of that id, or put the note in front.\<close>

definition upsert :: "Note \<Rightarrow> Note list \<Rightarrow> Note list" where
  "upsert note notes =
     (case findIndex (\<lambda>n. note_id n = note_id note) notes of
        Some index \<Rightarrow> notes[index := note]
      | None \<Rightarrow> note # notes)"



text \<open>The system with one cycle suspended before a step, and the system after a cycle has returned.\<close>

definition at_stage :: "stage \<Rightarrow> AuthUser \<Rightarrow> world \<Rightarrow> system \<Rightarrow> system" where
  "at_stage st u w s = s\<lparr>sys_world := w, sys_cycles := [\<lparr>cycle_stage = st, cycle_user = u\<rparr>]\<rparr>"

definition returned :: "bool \<Rightarrow> world \<Rightarrow> system \<Rightarrow> system" where
  "returned r w s =
     s\<lparr>sys_world := w\<lparr>isSyncing := False\<rparr>, sys_cycles := [], sys_results := sys_results s @ [r]\<rparr>"

section \<open>Example inputs\<close>

definition world0 :: world where
  "world0 =
     \<lparr>lastSyncTime = None, isOnline = True, isSyncing = False, pendingChanges = 0,
      conflictCount = 0, pendingOperations = [], currentUser = None,
      store = (\<lambda>k. None), storeOk = True, clock = 1000,
      localeCompare = (\<lambda>a b. int (length a) - int (length b)), trace = []\<rparr>"

definition note1 :: Note where
  "note1 =
     \<lparr>note_id = ''n1'', note_title = ''Groceries'', note_content = ''milk'', note_color = ''#ffffff'',
      note_isPinned = False, note_labels = [], note_images = [], note_audioTranscript = None,
      note_createdAt = 100, note_updatedAt = 200\<rparr>"

definition update_note1 :: PendingOperation where
  "update_note1 =
     \<lparr>op_id = ''n1'', op_type = Update, op_collection = Notes, op_data = NoteObj note1,
      op_timestamp = 1000, op_retryCount = 0\<rparr>"

definition user1 :: AuthUser where
  "user1 = \<lparr>user_id = ''u1'', user_email = ''ann@example.org'', user_name = ''Ann''\<rparr>"

definition remote_ok :: remote where
  "remote_ok =
     \<lparr>r_getNotes = (\<lambda>u. Inr []), r_getChatThreads = (\<lambda>u. Inr []), r_getLabels = (\<lambda>u. Inr []),
      r_saveNote = (\<lambda>n u. Inr (Some n)), r_createNote = (\<lambda>p. Inr None),
      r_updateNote = (\<lambda>i p. Inr None), r_deleteNote = (\<lambda>i. Inr True),
      r_createChatThread = (\<lambda>p. Inr None), r_updateChatThread = (\<lambda>i p. Inr None),
      r_deleteChatThread = (\<lambda>i. Inr True), r_createLabel = (\<lambda>p. Inr None),
      r_deleteLabel = (\<lambda>i. Inr True), r_indexNote = (\<lambda>n u. Inr ()),
      r_unindexNote = (\<lambda>i. Inr ())\<rparr>"

definition system0 :: system where
  "system0 = \<lparr>sys_world = world0, sys_cycles = [], sys_results = []\<rparr>"

definition triggers1 :: "event list" where
  "triggers1 =
     [AuthChanged (Some user1), Fire ExplicitRefresh, Fire AppBecameActive, Fire PeriodicTimer,
      Fire (ConnectivityChange False), Fire (ConnectivityChange True)]"


definition note1_newer :: Note where
  "note1_newer = note1\<lparr>note_content := ''milk, eggs'', note_updatedAt := 250\<rparr>"

definition note2 :: Note where
  "note2 =
     \<lparr>note_id = ''n2'', note_title = ''Trip'', note_content = ''tickets'', note_color = ''#fff475'',
      note_isPinned = True, note_labels = [''travel''], note_images = [],
      note_audioTranscript = None, note_createdAt = 150, note_updatedAt = 300\<rparr>"

definition note2_older :: Note where
  "note2_older = note2\<lparr>note_title := ''Trip (old)'', note_updatedAt := 160\<rparr>"

definition update_note2 :: PendingOperation where
  "update_note2 =
     \<lparr>op_id = ''n2'', op_type = Update, op_collection = Notes, op_data = NoteObj note2,
      op_timestamp = 1000, op_retryCount = 0\<rparr>"

definition thread1 :: ChatThread where
  "thread1 =
     \<lparr>thread_id = ''t1'', thread_title = ''Ideas'', thread_messages = [],
      thread_createdAt = 100, thread_updatedAt = 300\<rparr>"





definition world_thread1 :: world where
  "world_thread1 = world0\<lparr>store := [''chatThreads_u1'' \<mapsto> ThreadsJson [thread1]]\<rparr>"

definition world_queued :: world where
  "world_queued = world0\<lparr>pendingOperations := [update_note1], pendingChanges := 1\<rparr>"



definition remote_rejecting :: remote where
  "remote_rejecting = remote_ok\<lparr>r_updateNote := (\<lambda>i p. Inl (RemoteFailure ''timeout''))\<rparr>"

definition world_user_queued :: world where
  "world_user_queued = world_queued\<lparr>currentUser := Some user1\<rparr>"

definition delete_note1 :: PendingOperation where
  "delete_note1 =
     \<lparr>op_id = ''n1'', op_type = Delete, op_collection = Notes, op_data = IdObj ''n1'',
      op_timestamp = 1001, op_retryCount = 0\<rparr>"

definition world_two_ops :: world where
  "world_two_ops =
     world0\<lparr>currentUser := Some user1, pendingOperations := [update_note1, delete_note1],
            pendingChanges := 2\<rparr>"








definition world_signed_in :: world where
  "world_signed_in = world0\<lparr>currentUser := Some user1\<rparr>"

definition supabase_down :: supabase where
  "supabase_down =
     \<lparr>sb_update = (\<lambda>i n. SbError ''PGRST116''), sb_insert = (\<lambda>u n. SbError ''08006'')\<rparr>"

definition remote_database_down :: remote where
  "remote_database_down = remote_ok\<lparr>r_saveNote := (\<lambda>n u. fst (db_saveNote supabase_down n u))\<rparr>"



section \<open>What each operation leaves alone\<close>

lemma same_mode_refl: "same_mode w w"
  by (simp add: same_mode_def)

lemma same_mode_trans: "same_mode w w1 \<Longrightarrow> same_mode w1 w2 \<Longrightarrow> same_mode w w2"
  by (simp add: same_mode_def)

lemma same_mode_getItem: "same_mode w (snd (getItem k w))"
  by (simp add: same_mode_def getItem_def Let_def)

lemma same_mode_setItem: "same_mode w (snd (setItem k v w))"
  by (simp add: same_mode_def setItem_def Let_def)

lemma same_mode_savePendingOperations: "same_mode w (savePendingOperations w)"
  by (simp add: same_mode_def savePendingOperations_def setItem_def Let_def)

lemma same_mode_addPendingOperation: "same_mode w (addPendingOperation ty coll dat w)"
  by (simp add: same_mode_def addPendingOperation_def savePendingOperations_def setItem_def Let_def)

lemma same_mode_mergeNotes_loop: "same_mode w (snd (mergeNotes_loop cs m w))"
proof (induction cs arbitrary: m w)
  case Nil
  then show ?case by (simp add: same_mode_refl)
next
  case (Cons c cs)
  show ?case
    using Cons.IH same_mode_trans[OF same_mode_addPendingOperation Cons.IH]
    by (simp split: option.splits)
qed

lemma same_mode_mergeNotes: "same_mode w (snd (mergeNotes ls cs w))"
  by (simp add: mergeNotes_def split_beta same_mode_mergeNotes_loop)

lemma same_mode_getLocalNotes: "same_mode w (snd (getLocalNotes u w))"
  by (simp add: same_mode_def getLocalNotes_def getItem_def Let_def split: option.splits blob.splits)

lemma same_mode_saveLocalNotes: "same_mode w (saveLocalNotes u ns w)"
  by (simp add: same_mode_def saveLocalNotes_def setItem_def Let_def)

lemma same_mode_updateLocalNote: "same_mode w (updateLocalNote u n w)"
  using same_mode_getLocalNotes[of w u]
  by (auto simp: updateLocalNote_def split: prod.splits option.splits
      intro: same_mode_trans[OF _ same_mode_saveLocalNotes])

lemma same_mode_removeLocalNote: "same_mode w (removeLocalNote u i w)"
  using same_mode_getLocalNotes[of w u]
  by (auto simp: removeLocalNote_def split: prod.splits
      intro: same_mode_trans[OF _ same_mode_saveLocalNotes])

lemma same_mode_getLocalChatThreads: "same_mode w (snd (getLocalChatThreads u w))"
  by (simp add: same_mode_def getLocalChatThreads_def getItem_def Let_def
      split: option.splits blob.splits)

lemma same_mode_saveLocalChatThreads: "same_mode w (saveLocalChatThreads u ts w)"
  by (simp add: same_mode_def saveLocalChatThreads_def setItem_def Let_def)

lemma same_mode_updateLocalChatThread: "same_mode w (updateLocalChatThread u t w)"
  using same_mode_getLocalChatThreads[of w u]
  by (auto simp: updateLocalChatThread_def split: prod.splits option.splits
      intro: same_mode_trans[OF _ same_mode_saveLocalChatThreads])

lemma same_mode_getLocalLabels: "same_mode w (snd (getLocalLabels u w))"
  by (simp add: same_mode_def getLocalLabels_def getItem_def Let_def
      split: option.splits blob.splits)

lemma same_mode_saveLocalLabels: "same_mode w (saveLocalLabels u ls w)"
  by (simp add: same_mode_def saveLocalLabels_def setItem_def Let_def)

lemma same_mode_indexNote: "same_mode w (indexNote rem n u w)"
  by (simp add: same_mode_def indexNote_def Let_def split: sum.splits)

lemma same_mode_indexNotes: "same_mode w (indexNotes rem ns u w)"
proof (induction ns arbitrary: w)
  case Nil
  then show ?case by (simp add: same_mode_refl)
next
  case (Cons n ns)
  show ?case using same_mode_trans[OF same_mode_indexNote Cons.IH] by simp
qed

lemma same_mode_updateSearchIndex: "same_mode w (updateSearchIndex rem ns u w)"
  by (simp add: updateSearchIndex_def Let_def same_mode_indexNotes)

lemma same_mode_called: "same_mode w (called c w)"
  by (simp add: same_mode_def called_def)

lemma same_mode_unindexNote: "same_mode w (unindexNote rem i w)"
  by (simp add: same_mode_def unindexNote_def split: sum.splits)

lemma same_mode_trace: "same_mode w (w\<lparr>trace := t\<rparr>)"
  by (simp add: same_mode_def)

lemma same_mode_syncNotes: "same_mode w (snd (syncNotes rem u w))"
proof -
  let ?w1 = "snd (getLocalNotes u w)"
  let ?w2 = "?w1\<lparr>trace := trace ?w1 @ [Remote (GetNotes u)]\<rparr>"
  have a: "same_mode w ?w2"
    using same_mode_trans[OF same_mode_getLocalNotes same_mode_trace] .
  show ?thesis
  proof (cases "r_getNotes rem u")
    case (Inl e)
    then show ?thesis using a by (simp add: syncNotes_def split_beta Let_def)
  next
    case (Inr cloud)
    let ?m = "mergeNotes (fst (getLocalNotes u w)) cloud ?w2"
    have b: "same_mode w (snd ?m)"
      using same_mode_trans[OF a same_mode_mergeNotes] .
    have c: "same_mode w (saveLocalNotes u (fst ?m) (snd ?m))"
      using same_mode_trans[OF b same_mode_saveLocalNotes] .
    have "same_mode w (updateSearchIndex rem (fst ?m) u (saveLocalNotes u (fst ?m) (snd ?m)))"
      using same_mode_trans[OF c same_mode_updateSearchIndex] .
    then show ?thesis using Inr by (simp add: syncNotes_def split_beta Let_def)
  qed
qed

lemma same_mode_syncChatThreads: "same_mode w (snd (syncChatThreads rem u w))"
proof -
  let ?w1 = "snd (getLocalChatThreads u w)"
  let ?w2 = "?w1\<lparr>trace := trace ?w1 @ [Remote (GetChatThreads u)]\<rparr>"
  have a: "same_mode w ?w2"
    using same_mode_trans[OF same_mode_getLocalChatThreads same_mode_trace] .
  show ?thesis
    using a same_mode_trans[OF a same_mode_saveLocalChatThreads]
    by (simp add: syncChatThreads_def split_beta Let_def split: sum.splits)
qed

lemma same_mode_syncLabels: "same_mode w (snd (syncLabels rem u w))"
proof -
  let ?w1 = "snd (getLocalLabels u w)"
  let ?w2 = "?w1\<lparr>trace := trace ?w1 @ [Remote (GetLabels u)]\<rparr>"
  have a: "same_mode w ?w2"
    using same_mode_trans[OF same_mode_getLocalLabels same_mode_trace] .
  show ?thesis
    using a same_mode_trans[OF a same_mode_saveLocalLabels]
    by (simp add: syncLabels_def split_beta Let_def split: sum.splits)
qed

lemma same_mode_replay: "same_mode w (snd (replay rem p w))"
  by (simp add: replay_def processPendingNoteOperation_def processPendingChatThreadOperation_def
      processPendingLabelOperation_def same_mode_called same_mode_refl
      split: collection.splits optype.splits)

lemma same_mode_drain_loop: "same_mode w (snd (drain_loop rem ops ids w))"
proof (induction ops arbitrary: ids w)
  case Nil
  then show ?case by (simp add: same_mode_refl)
next
  case (Cons p ps)
  have "same_mode w (snd (drain_loop rem ps ids' (snd (replay rem p w))))" for ids'
    using same_mode_trans[OF same_mode_replay Cons.IH] .
  then show ?case
    by (simp add: split_beta Let_def split: sum.splits bool.splits prod.splits)
qed

lemma same_mode_processPendingOperations: "same_mode w (processPendingOperations rem w)"
proof -
  let ?d = "drain_loop rem (pendingOperations w) [] w"
  have a: "same_mode w (snd ?d)" by (rule same_mode_drain_loop)
  have b: "same_mode (snd ?d) (x\<lparr>pendingChanges := n\<rparr>)"
    if "x = (snd ?d)\<lparr>pendingOperations := q\<rparr>" for x q n
    using that by (simp add: same_mode_def)
  show ?thesis
    using same_mode_trans[OF same_mode_trans[OF a b[OF refl]] same_mode_savePendingOperations]
    by (simp add: processPendingOperations_def same_mode_refl split_beta Let_def
        split: option.splits)
qed

lemma same_mode_saveLastSyncTime: "same_mode w (saveLastSyncTime w)"
  by (simp add: same_mode_def saveLastSyncTime_def setItem_def Let_def split: option.splits)

lemma same_mode_saveNote: "same_mode w (snd (saveNote rem n w))"
proof (cases "currentUser w")
  case None
  then show ?thesis by (simp add: saveNote_def Let_def same_mode_updateLocalNote)
next
  case (Some u)
  let ?w1 = "updateLocalNote (localUserId (Some u)) n w"
  have a: "same_mode w ?w1" by (rule same_mode_updateLocalNote)
  have c: "same_mode w (called x ?w1)" for x
    using same_mode_trans[OF a same_mode_called] .
  have d: "same_mode w (addPendingOperation ty coll dat (called x ?w1))" for x ty coll dat
    using same_mode_trans[OF c same_mode_addPendingOperation] .
  have e: "same_mode w (indexNote rem n v (called x ?w1))" for x v
    using same_mode_trans[OF c same_mode_indexNote] .
  have f: "same_mode w (addPendingOperation ty coll dat ?w1)" for ty coll dat
    using same_mode_trans[OF a same_mode_addPendingOperation] .
  show ?thesis
    using Some a d e f
    by (simp add: saveNote_def Let_def split: option.splits sum.splits)
qed

lemma same_mode_deleteNote: "same_mode w (snd (deleteNote rem i w))"
proof (cases "currentUser w")
  case None
  then show ?thesis by (simp add: deleteNote_def Let_def same_mode_removeLocalNote)
next
  case (Some u)
  let ?w1 = "removeLocalNote (localUserId (Some u)) i w"
  have a: "same_mode w ?w1" by (rule same_mode_removeLocalNote)
  have c: "same_mode w (called x ?w1)" for x
    using same_mode_trans[OF a same_mode_called] .
  have d: "same_mode w (addPendingOperation ty coll dat (called x ?w1))" for x ty coll dat
    using same_mode_trans[OF c same_mode_addPendingOperation] .
  have e: "same_mode w (unindexNote rem j (called x ?w1))" for x j
    using same_mode_trans[OF c same_mode_unindexNote] .
  have e': "same_mode w (unindexNote rem j (addPendingOperation ty coll dat (called x ?w1)))"
    for x j ty coll dat
    using same_mode_trans[OF d same_mode_unindexNote] .
  have f: "same_mode w (addPendingOperation ty coll dat ?w1)" for ty coll dat
    using same_mode_trans[OF a same_mode_addPendingOperation] .
  show ?thesis
    using Some a e e' f
    by (simp add: deleteNote_def Let_def split: option.splits sum.splits bool.splits)
qed

lemma same_mode_saveChatThread: "same_mode w (snd (saveChatThread rem t w))"
proof (cases "currentUser w")
  case None
  then show ?thesis by (simp add: saveChatThread_def same_mode_updateLocalChatThread)
next
  case (Some u)
  let ?w1 = "updateLocalChatThread (user_id u) t w"
  have a: "same_mode w ?w1" by (rule same_mode_updateLocalChatThread)
  have c: "same_mode w (called x ?w1)" for x
    using same_mode_trans[OF a same_mode_called] .
  have d: "same_mode w (addPendingOperation ty coll dat (called x ?w1))" for x ty coll dat
    using same_mode_trans[OF c same_mode_addPendingOperation] .
  have f: "same_mode w (addPendingOperation ty coll dat ?w1)" for ty coll dat
    using same_mode_trans[OF a same_mode_addPendingOperation] .
  show ?thesis
    using Some c d f
    by (simp add: saveChatThread_def Let_def split: option.splits sum.splits)
qed

section \<open>The queue under \<^verbatim>\<open>addPendingOperation\<close>\<close>

lemma pendingOperations_savePendingOperations:
  "pendingOperations (savePendingOperations w) = pendingOperations w"
  by (simp add: savePendingOperations_def setItem_def Let_def)

lemma pendingChanges_savePendingOperations:
  "pendingChanges (savePendingOperations w) = pendingChanges w"
  by (simp add: savePendingOperations_def setItem_def Let_def)

lemma pendingOperations_addPendingOperation:
  "pendingOperations (addPendingOperation ty coll dat w) =
     pendingOperations w @ [new_operation ty coll dat (clock w)]"
  by (simp add: addPendingOperation_def Let_def new_operation_def
      pendingOperations_savePendingOperations)

text \<open>
  C8, as stated, fails: two writes of the same kind for the same note leave two operations
  in the queue.
\<close>

theorem C8_counterexample:
  "pendingOperations
     (addPendingOperation Update Notes (NoteObj note1)
        (addPendingOperation Update Notes (NoteObj note1) world0))
   = [update_note1, update_note1]"
  using same_mode_addPendingOperation[of world0 Update Notes "NoteObj note1"]
  by (simp add: pendingOperations_addPendingOperation new_operation_def note1_def world0_def
      update_note1_def same_mode_def)

text \<open>
  C8, amended: \<^verbatim>\<open>addPendingOperation\<close> never supersedes. It appends one new operation with retry
  count 0 behind every operation already queued, whatever their ids and kinds, so the queue
  grows by exactly one and \<^verbatim>\<open>pendingChanges\<close> is its new length.
\<close>

theorem C8_enqueue_appends:
  "pendingOperations (addPendingOperation ty coll dat w) =
     pendingOperations w @ [new_operation ty coll dat (clock w)]
   \<and> length (pendingOperations (addPendingOperation ty coll dat w)) =
     Suc (length (pendingOperations w))
   \<and> pendingChanges (addPendingOperation ty coll dat w) = Suc (length (pendingOperations w))"
  by (simp add: addPendingOperation_def Let_def new_operation_def
      pendingOperations_savePendingOperations pendingChanges_savePendingOperations)

section \<open>At most one sync cycle\<close>

lemma one_cycle_start_sync: "one_cycle s \<Longrightarrow> one_cycle (start_sync s)"
  by (auto simp: one_cycle_def start_sync_def Let_def split: option.splits)

lemma one_cycle_fire: "one_cycle s \<Longrightarrow> one_cycle (fire t s)"
proof (cases t)
  case (ConnectivityChange b)
  assume a: "one_cycle s"
  have b: "one_cycle (s\<lparr>sys_world := (sys_world s)\<lparr>isOnline := b\<rparr>\<rparr>)"
    using a by (simp add: one_cycle_def)
  show ?thesis
    using b one_cycle_start_sync[OF b] ConnectivityChange by (auto simp: fire_def Let_def)
qed (simp_all add: fire_def one_cycle_start_sync)

lemma one_cycle_advance:
  assumes "one_cycle s" and "i < length (sys_cycles s)" and "same_mode (sys_world s) w"
  shows "one_cycle (advance_cycle i next w s)"
  using assms by (auto simp: one_cycle_def advance_cycle_def same_mode_def)

lemma one_cycle_leave:
  assumes "one_cycle s" and "i < length (sys_cycles s)"
  shows "one_cycle (leave_cycle i r w s)"
  using assms by (auto simp: one_cycle_def leave_cycle_def)

lemma one_cycle_resume: "one_cycle s \<Longrightarrow> one_cycle (resume i rem s)"
proof (cases "i < length (sys_cycles s)")
  case False
  assume "one_cycle s"
  then show ?thesis using False by (simp add: resume_def)
next
  case True
  assume a: "one_cycle s"
  let ?u = "user_id (cycle_user (sys_cycles s ! i))"
  note adv = one_cycle_advance[OF a True]
  note lv = one_cycle_leave[OF a True]
  show ?thesis
  proof (cases "cycle_stage (sys_cycles s ! i)")
    case DrainQueue
    then show ?thesis using True adv[OF same_mode_processPendingOperations]
      by (simp add: resume_def Let_def)
  next
    case NotesStage
    then show ?thesis
      using True lv adv[OF same_mode_syncNotes[of "sys_world s" rem ?u]]
      by (auto simp: resume_def Let_def split: prod.splits sum.splits)
  next
    case ChatThreadsStage
    then show ?thesis
      using True lv adv[OF same_mode_syncChatThreads[of "sys_world s" rem ?u]]
      by (auto simp: resume_def Let_def split: prod.splits sum.splits)
  next
    case LabelsStage
    then show ?thesis
      using True lv adv[OF same_mode_syncLabels[of "sys_world s" rem ?u]]
      by (auto simp: resume_def Let_def split: prod.splits sum.splits)
  next
    case FinishStage
    then show ?thesis using True lv by (simp add: resume_def Let_def)
  qed
qed

lemma one_cycle_world:
  "one_cycle s \<Longrightarrow> same_mode (sys_world s) w \<Longrightarrow> one_cycle (s\<lparr>sys_world := w\<rparr>)"
  by (simp add: one_cycle_def same_mode_def)

lemma one_cycle_step: "one_cycle s \<Longrightarrow> one_cycle (step e s)"
proof (cases e)
  case (Fire t)
  assume "one_cycle s"
  then show ?thesis using Fire by (simp add: step_def one_cycle_fire)
next
  case (Resume i rem)
  assume "one_cycle s"
  then show ?thesis using Resume by (simp add: step_def one_cycle_resume)
next
  case (UserSaveNote rem n)
  assume "one_cycle s"
  then show ?thesis using UserSaveNote
    by (simp add: step_def one_cycle_world[OF _ same_mode_saveNote])
next
  case (UserDeleteNote rem i)
  assume "one_cycle s"
  then show ?thesis using UserDeleteNote
    by (simp add: step_def one_cycle_world[OF _ same_mode_deleteNote])
next
  case (UserSaveChatThread rem t)
  assume "one_cycle s"
  then show ?thesis using UserSaveChatThread
    by (simp add: step_def one_cycle_world[OF _ same_mode_saveChatThread])
next
  case (AuthChanged u)
  assume "one_cycle s"
  then show ?thesis using AuthChanged by (simp add: step_def one_cycle_def)
next
  case ClockTick
  assume "one_cycle s"
  then show ?thesis using ClockTick by (simp add: step_def one_cycle_def)
qed

lemma one_cycle_run: "one_cycle s \<Longrightarrow> one_cycle (run es s)"
  by (induction es arbitrary: s) (simp_all add: one_cycle_step)

lemma syncAll_rejects: "isSyncing w \<Longrightarrow> syncAll rem w = (False, w)"
  by (simp add: syncAll_def)

lemma isSyncing_finish_sync: "\<not> isSyncing (snd (finish_sync w))"
  by (simp add: finish_sync_def Let_def)

lemma syncAll_clears: "\<not> isSyncing w \<Longrightarrow> \<not> isSyncing (snd (syncAll rem w))"
  by (simp add: syncAll_def Let_def isSyncing_finish_sync split: option.splits prod.splits sum.splits)

lemma resume_returned: "resume i rem (returned r w s) = returned r w s"
  by (simp add: resume_def returned_def)

lemma resume_drain:
  "resume 0 rem (at_stage DrainQueue u w s) =
     at_stage NotesStage u (processPendingOperations rem w) s"
  by (simp add: resume_def at_stage_def advance_cycle_def Let_def)

lemma resume_notes:
  "resume 0 rem (at_stage NotesStage u w s) =
     (case syncNotes rem (user_id u) w of
        (Inl e, w') \<Rightarrow> returned False w' s
      | (Inr x, w') \<Rightarrow> at_stage ChatThreadsStage u w' s)"
  by (simp add: resume_def at_stage_def advance_cycle_def leave_cycle_def returned_def Let_def
      split: prod.splits sum.splits)

lemma resume_threads:
  "resume 0 rem (at_stage ChatThreadsStage u w s) =
     (case syncChatThreads rem (user_id u) w of
        (Inl e, w') \<Rightarrow> returned False w' s
      | (Inr x, w') \<Rightarrow> at_stage LabelsStage u w' s)"
  by (simp add: resume_def at_stage_def advance_cycle_def leave_cycle_def returned_def Let_def
      split: prod.splits sum.splits)

lemma resume_labels:
  "resume 0 rem (at_stage LabelsStage u w s) =
     (case syncLabels rem (user_id u) w of
        (Inl e, w') \<Rightarrow> returned False w' s
      | (Inr x, w') \<Rightarrow> at_stage FinishStage u w' s)"
  by (simp add: resume_def at_stage_def advance_cycle_def leave_cycle_def returned_def Let_def
      split: prod.splits sum.splits)

lemma resume_finish:
  "resume 0 rem (at_stage FinishStage u w s) = returned True (snd (finish_sync w)) s"
  by (simp add: resume_def at_stage_def leave_cycle_def returned_def Let_def finish_sync_def)

lemma start_sync_accepts:
  "sys_cycles s = [] \<Longrightarrow> \<not> isSyncing (sys_world s) \<Longrightarrow> currentUser (sys_world s) = Some u \<Longrightarrow>
   isOnline (sys_world s) \<Longrightarrow>
   start_sync s = at_stage DrainQueue u ((sys_world s)\<lparr>isSyncing := True\<rparr>) s"
  by (simp add: start_sync_def at_stage_def Let_def)


lemma step_Resume: "step (Resume i rem) s = resume i rem s"
  by (simp add: step_def)

lemma step_Refresh: "step (Fire ExplicitRefresh) s = start_sync s"
  by (simp add: step_def fire_def)

lemma resume_idle: "sys_cycles s = [] \<Longrightarrow> resume i rem s = s"
  by (simp add: resume_def)

lemma returned_fields:
  "sys_world (returned r w s) = w\<lparr>isSyncing := False\<rparr>"
  "sys_results (returned r w s) = sys_results s @ [r]"
  "sys_cycles (returned r w s) = []"
  by (simp_all add: returned_def)

text \<open>
  One call of \<^verbatim>\<open>syncAll\<close> with nothing interleaved is the call followed by the five
  resumptions of its cycle: the event loop and the function agree on the state reached and
  on the value returned.
\<close>

lemma syncAll_as_run:
  assumes "sys_cycles s = []"
  shows "sys_world (run [Fire ExplicitRefresh, Resume 0 rem, Resume 0 rem, Resume 0 rem,
                         Resume 0 rem, Resume 0 rem] s) = snd (syncAll rem (sys_world s))
       \<and> sys_results (run [Fire ExplicitRefresh, Resume 0 rem, Resume 0 rem, Resume 0 rem,
                            Resume 0 rem, Resume 0 rem] s) =
           sys_results s @ [fst (syncAll rem (sys_world s))]
       \<and> sys_cycles (run [Fire ExplicitRefresh, Resume 0 rem, Resume 0 rem, Resume 0 rem,
                           Resume 0 rem, Resume 0 rem] s) = []"
proof (cases "isSyncing (sys_world s) \<or> currentUser (sys_world s) = None \<or> \<not> isOnline (sys_world s)")
  case True
  then have a: "start_sync s = s\<lparr>sys_results := sys_results s @ [False]\<rparr>"
    by (auto simp: start_sync_def Let_def split: option.splits)
  have b: "syncAll rem (sys_world s) = (False, sys_world s)"
    using True by (auto simp: syncAll_def split: option.splits)
  have c: "resume i rem (s\<lparr>sys_results := rs\<rparr>) = s\<lparr>sys_results := rs\<rparr>" for i rs
    using assms by (simp add: resume_idle)
  show ?thesis
    using assms by (simp add: step_Resume step_Refresh a b c)
next
  case False
  then obtain u where u: "currentUser (sys_world s) = Some u"
    and g: "\<not> isSyncing (sys_world s)" "isOnline (sys_world s)"
    by auto
  let ?w0 = "(sys_world s)\<lparr>isSyncing := True\<rparr>"
  let ?w1 = "processPendingOperations rem ?w0"
  have st: "start_sync s = at_stage DrainQueue u ?w0 s"
    by (rule start_sync_accepts[OF assms g(1) u g(2)])
  obtain r2 w2 where n: "syncNotes rem (user_id u) ?w1 = (r2, w2)"
    by (cases "syncNotes rem (user_id u) ?w1")
  obtain r3 w3 where c: "syncChatThreads rem (user_id u) w2 = (r3, w3)"
    by (cases "syncChatThreads rem (user_id u) w2")
  obtain r4 w4 where l: "syncLabels rem (user_id u) w3 = (r4, w4)"
    by (cases "syncLabels rem (user_id u) w3")
  have sa: "syncAll rem (sys_world s) =
      (case r2 of Inl e \<Rightarrow> (False, w2\<lparr>isSyncing := False\<rparr>)
       | Inr x \<Rightarrow> (case r3 of Inl e \<Rightarrow> (False, w3\<lparr>isSyncing := False\<rparr>)
                  | Inr x \<Rightarrow> (case r4 of Inl e \<Rightarrow> (False, w4\<lparr>isSyncing := False\<rparr>)
                             | Inr x \<Rightarrow> finish_sync w4)))"
    using u g n c l by (simp add: syncAll_def Let_def split: sum.splits)
  have fs: "fst (finish_sync w)" for w
    by (simp add: finish_sync_def Let_def)
  have fi: "(snd (finish_sync w))\<lparr>isSyncing := False\<rparr> = snd (finish_sync w)" for w
    by (simp add: finish_sync_def Let_def)
  show ?thesis
  proof (cases r2)
    case (Inl e)
    then show ?thesis
      by (simp add: step_Resume step_Refresh st resume_drain resume_notes n resume_returned
          returned_fields sa)
  next
    case r2: (Inr x)
    show ?thesis
    proof (cases r3)
      case (Inl e)
      then show ?thesis
        using r2
        by (simp add: step_Resume step_Refresh st resume_drain resume_notes n resume_threads c
            resume_returned returned_fields sa)
    next
      case r3: (Inr y)
      show ?thesis
      proof (cases r4)
        case (Inl e)
        then show ?thesis
          using r2 r3
          by (simp add: step_Resume step_Refresh st resume_drain resume_notes n resume_threads c
              resume_labels l resume_returned returned_fields sa)
      next
        case (Inr z)
        then show ?thesis
          using r2 r3
          by (simp add: fs step_Resume step_Refresh st resume_drain resume_notes n resume_threads c
              resume_labels l resume_finish returned_fields sa fi)
      qed
    qed
  qed
qed

text \<open>
  C1: whatever the order of triggers, resumptions, saves, deletes and changes of user, at
  most one sync cycle is suspended at any time, and \<^verbatim>\<open>isSyncing\<close> is set exactly while one is.
  A call of \<^verbatim>\<open>syncAll\<close> made while the flag is set returns \<^verbatim>\<open>false\<close> at once and changes
  nothing: no queue, storage or remote operation. A call made while the flag is clear
  returns with the flag clear on every path, the guarded returns and the throws included.
  No code outside \<^verbatim>\<open>syncAll\<close> assigns the flag, so a finer interleaving inside one step
  cannot change it.
\<close>

theorem C1_at_most_one_sync:
  assumes "sys_cycles s = []" and "\<not> isSyncing (sys_world s)"
  shows "length (sys_cycles (run es s)) \<le> 1
       \<and> (isSyncing (sys_world (run es s)) = (sys_cycles (run es s) \<noteq> []))
       \<and> (isSyncing (sys_world (run es s)) \<longrightarrow>
            start_sync (run es s) = (run es s)\<lparr>sys_results := sys_results (run es s) @ [False]\<rparr>)
       \<and> (isSyncing w1 \<longrightarrow> syncAll rem w1 = (False, w1))
       \<and> (\<not> isSyncing w2 \<longrightarrow> \<not> isSyncing (snd (syncAll rem w2)))"
proof -
  have "one_cycle s" using assms by (simp add: one_cycle_def)
  then have "one_cycle (run es s)" by (rule one_cycle_run)
  then have a: "length (sys_cycles (run es s)) \<le> 1"
    and b: "isSyncing (sys_world (run es s)) = (sys_cycles (run es s) \<noteq> [])"
    by (simp_all add: one_cycle_def)
  have c: "isSyncing (sys_world (run es s)) \<longrightarrow>
            start_sync (run es s) = (run es s)\<lparr>sys_results := sys_results (run es s) @ [False]\<rparr>"
    by (simp add: start_sync_def Let_def)
  show ?thesis using a b c syncAll_rejects syncAll_clears by blast
qed

theorem C1_at_most_one_sync_witness:
  "sys_cycles system0 = [] \<and> \<not> isSyncing (sys_world system0)
   \<and> length (sys_cycles (run triggers1 system0)) \<le> 1
   \<and> isSyncing (sys_world (run triggers1 system0))
   \<and> sys_results (run triggers1 system0) = [False, False]
   \<and> start_sync (run triggers1 system0) =
       (run triggers1 system0)\<lparr>sys_results := [False, False, False]\<rparr>
   \<and> isSyncing (world0\<lparr>isSyncing := True\<rparr>)
   \<and> syncAll remote_ok (world0\<lparr>isSyncing := True\<rparr>) = (False, world0\<lparr>isSyncing := True\<rparr>)
   \<and> \<not> isSyncing (world0\<lparr>currentUser := Some user1\<rparr>)
   \<and> \<not> isSyncing (snd (syncAll remote_ok (world0\<lparr>currentUser := Some user1\<rparr>)))"
proof -
  have h1: "sys_cycles system0 = []" and h2: "\<not> isSyncing (sys_world system0)"
    by (simp_all add: system0_def world0_def)
  have r: "sys_results (run triggers1 system0) = [False, False]"
    and q: "isSyncing (sys_world (run triggers1 system0))"
    by (simp_all add: triggers1_def system0_def world0_def step_def fire_def start_sync_def Let_def)
  show ?thesis
    using C1_at_most_one_sync[OF h1 h2, of triggers1 "world0\<lparr>isSyncing := True\<rparr>" remote_ok
        "world0\<lparr>currentUser := Some user1\<rparr>"] h1 h2 r q
    by (simp add: world0_def)
qed

section \<open>Maps and sorting\<close>

lemma keyed_Nil: "keyed f []"
  by (simp add: keyed_def)

lemma keyed_map_set: "keyed f m \<Longrightarrow> keyed f (map_set (f v) v m)" for v :: 'b
proof -
  have "set (AList.update k v m) \<subseteq> insert (k, v) (set m)" for k and m :: "'b jsmap"
    by (induction m) auto
  then show "keyed f m \<Longrightarrow> keyed f (map_set (f v) v m)"
    unfolding keyed_def map_set_def
    by (fastforce simp: distinct_update)
qed

lemma find_unique:
  "distinct (map f xs) \<Longrightarrow> find (\<lambda>x. f x = i) xs = Some x \<longleftrightarrow> x \<in> set xs \<and> f x = i"
  by (induction xs) (auto simp: rev_image_eqI)

lemma keyed_values_distinct: "keyed f m \<Longrightarrow> distinct (map f (map_values m))"
  unfolding keyed_def map_values_def
  by (induction m) (auto simp: rev_image_eqI)

lemma keyed_find: "keyed f m \<Longrightarrow> find (\<lambda>x. f x = i) (map_values m) = map_get m i"
  unfolding keyed_def map_values_def map_get_def
  by (induction m) auto

lemma set_js_insert: "set (js_insert cmp x xs) = insert x (set xs)"
  by (induction xs) auto

lemma set_js_sort: "set (js_sort cmp xs) = set xs"
  unfolding js_sort_def by (induction xs) (auto simp: set_js_insert)

lemma distinct_map_js_insert:
  "distinct (map f (js_insert cmp x xs)) = (f x \<notin> f ` set xs \<and> distinct (map f xs))"
  by (induction xs) (auto simp: set_js_insert)

lemma distinct_map_js_sort: "distinct (map f (js_sort cmp xs)) = distinct (map f xs)"
  unfolding js_sort_def
  by (induction xs) (auto simp: distinct_map_js_insert set_js_sort[unfolded js_sort_def])

lemma length_js_insert: "length (js_insert cmp x xs) = Suc (length xs)"
  by (induction xs) auto

lemma length_js_sort: "length (js_sort cmp xs) = length xs"
  unfolding js_sort_def by (induction xs) (auto simp: length_js_insert)

lemma find_js_sort:
  assumes "distinct (map f xs)"
  shows "find (\<lambda>x. f x = i) (js_sort cmp xs) = find (\<lambda>x. f x = i) xs"
proof -
  have d: "distinct (map f (js_sort cmp xs))"
    using assms by (simp add: distinct_map_js_sort)
  show ?thesis
  proof (cases "find (\<lambda>x. f x = i) xs")
    case None
    then have "find (\<lambda>x. f x = i) (js_sort cmp xs) = None"
      by (simp add: find_None_iff set_js_sort)
    with None show ?thesis by simp
  next
    case (Some x)
    then show ?thesis
      using find_unique[OF assms, of i x] find_unique[OF d, of i x] by (simp add: set_js_sort)
  qed
qed

lemma map_get_map_set: "map_get (map_set k v m) i = (if i = k then Some v else map_get m i)"
  by (simp add: map_get_def map_set_def update_conv')

lemma map_get_Nil: "map_get [] i = None"
  by (simp add: map_get_def)

lemma find_in_distinct_None:
  "distinct (map f (x # xs)) \<Longrightarrow> find (\<lambda>y. f y = f x) xs = None"
  by (auto simp: find_None_iff image_iff)

section \<open>Seeding\<close>

lemma map_get_seed_notes:
  "distinct (map note_id ns) \<Longrightarrow>
   map_get (seed_notes ns m) i = (case find_note i ns of None \<Rightarrow> map_get m i | Some n \<Rightarrow> Some n)"
proof (induction ns arbitrary: m)
  case Nil
  then show ?case by (simp add: find_note_def)
next
  case (Cons n ns)
  have IH: "map_get (seed_notes ns (map_set (note_id n) n m)) i =
        (case find_note i ns of None \<Rightarrow> map_get (map_set (note_id n) n m) i | Some x \<Rightarrow> Some x)"
    using Cons by simp
  show ?case
  proof (cases "note_id n = i")
    case True
    then have "find_note i ns = None"
      using find_in_distinct_None[OF Cons.prems] by (simp add: find_note_def)
    then show ?thesis using True IH
      by (simp add: find_note_def map_get_map_set)
  next
    case False
    then show ?thesis using IH
      by (simp add: find_note_def map_get_map_set split: option.splits)
  qed
qed

lemma keyed_seed_notes: "keyed note_id m \<Longrightarrow> keyed note_id (seed_notes ns m)"
  by (induction ns arbitrary: m) (auto intro: keyed_map_set)





section \<open>The loops\<close>

lemma mergeNotes_loop_get:
  "distinct (map note_id cs) \<Longrightarrow>
   map_get (fst (mergeNotes_loop cs m w)) i = lww note_updatedAt (map_get m i) (find_note i cs)"
proof (induction cs arbitrary: m w)
  case Nil
  then show ?case by (simp add: find_note_def lww_def)
next
  case (Cons c cs)
  have d: "distinct (map note_id cs)" using Cons.prems by simp
  note IH = Cons.IH[OF d]
  show ?case
  proof (cases "note_id c = i")
    case True
    then have nf: "find_note i cs = None"
      using find_in_distinct_None[OF Cons.prems] by (simp add: find_note_def)
    show ?thesis using True nf
      by (auto simp: IH find_note_def lww_def map_get_map_set split: option.splits)
  next
    case False
    then show ?thesis
      by (auto simp: IH find_note_def map_get_map_set split: option.splits)
  qed
qed

lemma keyed_mergeNotes_loop:
  "keyed note_id m \<Longrightarrow> keyed note_id (fst (mergeNotes_loop cs m w))"
  by (induction cs arbitrary: m w) (auto intro: keyed_map_set split: option.splits)

lemma mergeNotes_loop_result_pure:
  "fst (mergeNotes_loop cs m w) = fst (mergeNotes_loop cs m w')"
proof (induction cs arbitrary: m w w')
  case Nil
  then show ?case by simp
next
  case (Cons c cs)
  show ?case
    using Cons.IH by (simp split: option.splits)
qed

lemma winners_in_map_set:
  "k \<notin> note_id ` set cs \<Longrightarrow> winners_in (map_set k v m) cs = winners_in m cs"
proof -
  assume a: "k \<notin> note_id ` set cs"
  have "\<forall>c \<in> set cs. map_get (map_set k v m) (note_id c) = map_get m (note_id c)"
    using a by (auto simp: map_get_map_set)
  then show ?thesis
    unfolding winners_in_def map_filter_def
    by (intro arg_cong[where f = "map _"] filter_cong map_cong refl) auto
qed

lemma mergeNotes_loop_queue:
  "distinct (map note_id cs) \<Longrightarrow>
   pendingOperations (snd (mergeNotes_loop cs m w)) =
     pendingOperations w
       @ map (\<lambda>l. new_operation Update Notes (NoteObj l) (clock w)) (winners_in m cs)"
proof (induction cs arbitrary: m w)
  case Nil
  then show ?case by (simp add: winners_in_def map_filter_def)
next
  case (Cons c cs)
  have d: "distinct (map note_id cs)" and k: "note_id c \<notin> note_id ` set cs"
    using Cons.prems by simp_all
  note IH = Cons.IH[OF d]
  note ws = winners_in_map_set[OF k]
  have clk: "clock (addPendingOperation ty coll dat w) = clock w" for ty coll dat
    using same_mode_addPendingOperation[of w ty coll dat] by (simp add: same_mode_def)
  show ?case
  proof (cases "map_get m (note_id c)")
    case None
    then show ?thesis
      by (simp add: IH ws) (simp add: winners_in_def map_filter_def)
  next
    case (Some l)
    then show ?thesis
      by (simp add: IH ws clk pendingOperations_addPendingOperation)
        (simp add: winners_in_def map_filter_def)
  qed
qed

lemma mergeNotes_loop_no_winner:
  "winners_in m cs = [] \<Longrightarrow> distinct (map note_id cs) \<Longrightarrow> snd (mergeNotes_loop cs m w) = w"
proof (induction cs arbitrary: m w)
  case Nil
  then show ?case by simp
next
  case (Cons c cs)
  have d: "distinct (map note_id cs)" and k: "note_id c \<notin> note_id ` set cs"
    using Cons.prems by simp_all
  note ws = winners_in_map_set[OF k]
  show ?case
  proof (cases "map_get m (note_id c)")
    case None
    then have "winners_in m cs = []"
      using Cons.prems(1) by (simp add: winners_in_def map_filter_def)
    then show ?thesis using None Cons.IH[OF _ d] by (simp add: ws)
  next
    case (Some l)
    then have nw: "\<not> note_updatedAt l > note_updatedAt c" and r: "winners_in m cs = []"
      using Cons.prems(1) by (auto simp: winners_in_def map_filter_def split: if_splits)
    show ?thesis using Some nw r Cons.IH[OF _ d] by (simp add: ws)
  qed
qed



section \<open>The three merges\<close>

lemma seeded_notes_get:
  "distinct (map note_id ls) \<Longrightarrow> map_get (seed_notes ls []) i = find_note i ls"
  by (simp add: map_get_seed_notes map_get_Nil split: option.splits)

lemma winners_in_seed:
  "distinct (map note_id ls) \<Longrightarrow> winners_in (seed_notes ls []) cs = localWinners ls cs"
  unfolding winners_in_def localWinners_def
  by (simp add: seeded_notes_get)

lemma find_note_mergeNotes:
  assumes "distinct (map note_id ls)" and "distinct (map note_id cs)"
  shows "find_note i (fst (mergeNotes ls cs w)) =
           lww note_updatedAt (find_note i ls) (find_note i cs)"
proof -
  let ?m = "fst (mergeNotes_loop cs (seed_notes ls []) w)"
  have k: "keyed note_id ?m"
    by (intro keyed_mergeNotes_loop keyed_seed_notes keyed_Nil)
  have s: "map_get (seed_notes ls []) i = find_note i ls"
    using assms(1) by (simp add: map_get_seed_notes map_get_Nil split: option.splits)
  have "find_note i (fst (mergeNotes ls cs w)) = find_note i (map_values ?m)"
    unfolding find_note_def
    by (simp add: mergeNotes_def split_beta find_js_sort[OF keyed_values_distinct[OF k]])
  also have "\<dots> = map_get ?m i"
    unfolding find_note_def by (rule keyed_find[OF k])
  also have "\<dots> = lww note_updatedAt (find_note i ls) (find_note i cs)"
    by (simp add: mergeNotes_loop_get[OF assms(2)] s)
  finally show ?thesis .
qed

lemma distinct_mergeNotes: "distinct (map note_id (fst (mergeNotes ls cs w)))"
proof -
  let ?m = "fst (mergeNotes_loop cs (seed_notes ls []) w)"
  have "keyed note_id ?m"
    by (intro keyed_mergeNotes_loop keyed_seed_notes keyed_Nil)
  then show ?thesis
    by (simp add: mergeNotes_def split_beta distinct_map_js_sort keyed_values_distinct)
qed

lemma queue_mergeNotes:
  assumes "distinct (map note_id ls)" and "distinct (map note_id cs)"
  shows "pendingOperations (snd (mergeNotes ls cs w)) =
           pendingOperations w
             @ map (\<lambda>l. new_operation Update Notes (NoteObj l) (clock w)) (localWinners ls cs)"
  by (simp add: mergeNotes_def split_beta mergeNotes_loop_queue[OF assms(2)]
      winners_in_seed[OF assms(1)])



lemma lww_commute:
  assumes "\<And>l r. a = Some l \<Longrightarrow> b = Some r \<Longrightarrow> ts l \<noteq> ts r"
  shows "lww ts a b = lww ts b a"
proof (cases a)
  case None
  then show ?thesis by (cases b) (simp_all add: lww_def)
next
  case (Some l)
  show ?thesis
  proof (cases b)
    case None
    then show ?thesis using Some by (simp add: lww_def)
  next
    case (Some r)
    then show ?thesis using \<open>a = Some l\<close> assms[of l r] by (simp add: lww_def)
  qed
qed

lemma find_note_SomeD: "find_note i ns = Some n \<Longrightarrow> n \<in> set ns \<and> note_id n = i"
  unfolding find_note_def by (auto simp: find_Some_iff)

lemma in_mergeNotes_iff:
  assumes "distinct (map note_id ls)" and "distinct (map note_id cs)"
  shows "x \<in> set (fst (mergeNotes ls cs w)) \<longleftrightarrow>
           lww note_updatedAt (find_note (note_id x) ls) (find_note (note_id x) cs) = Some x"
  using find_unique[where f = note_id and xs = "fst (mergeNotes ls cs w)" and i = "note_id x"
        and x = x, OF distinct_mergeNotes]
    find_note_mergeNotes[OF assms, of "note_id x" w]
  by (simp add: find_note_def)

lemma mergeNotes_commute:
  assumes "distinct (map note_id ls)" and "distinct (map note_id cs)"
    and "\<forall>l \<in> set ls. \<forall>r \<in> set cs. note_id l = note_id r \<longrightarrow> note_updatedAt l \<noteq> note_updatedAt r"
  shows "set (fst (mergeNotes ls cs w)) = set (fst (mergeNotes cs ls w'))"
proof -
  have "lww note_updatedAt (find_note i ls) (find_note i cs) =
        lww note_updatedAt (find_note i cs) (find_note i ls)" for i
    using assms(3) by (intro lww_commute) (auto dest!: find_note_SomeD)
  then show ?thesis
    using in_mergeNotes_iff[OF assms(1,2)] in_mergeNotes_iff[OF assms(2,1)] by auto
qed

lemma mergeNotes_result_pure: "fst (mergeNotes ls cs w) = fst (mergeNotes ls cs w')"
  using mergeNotes_loop_result_pure[of cs "seed_notes ls []" w w']
  by (simp add: mergeNotes_def split_beta)

lemma mergeNotes_no_winner:
  assumes "distinct (map note_id ls)" and "distinct (map note_id cs)" and "localWinners ls cs = []"
  shows "snd (mergeNotes ls cs w) = w"
  using mergeNotes_loop_no_winner[OF _ assms(2), of "seed_notes ls []" w] assms(3)
  by (simp add: mergeNotes_def split_beta winners_in_seed[OF assms(1)])




text \<open>
  C7, as stated, fails: \<^verbatim>\<open>mergeNotes\<close> changes the pending-operation queue when a local note
  is strictly newer than its remote copy.
\<close>

theorem C7_counterexample:
  "pendingOperations world0 = []
   \<and> pendingOperations (snd (mergeNotes [note2] [note2_older] world0)) = [update_note2]"
proof -
  have d: "distinct (map note_id [note2])" "distinct (map note_id [note2_older])"
    by simp_all
  show ?thesis
    using queue_mergeNotes[OF d, of world0]
    by (simp add: find_note_def localWinners_def map_filter_def new_operation_def
        update_note2_def note2_def note2_older_def world0_def)
qed

text \<open>
  C7, amended. With the ids distinct inside each snapshot, the list that \<^verbatim>\<open>mergeNotes\<close>
  returns depends on the two snapshots alone, whatever the state of the engine. The call is
  not free of effects: it appends to the queue one update per local winner; when there is
  no local winner it leaves the whole state as it was. When the timestamps of every shared
  id differ, merging in either direction gives the same notes. (\<^verbatim>\<open>mergeChatThreads\<close> and
  \<^verbatim>\<open>mergeLabels\<close> take and return lists only.)
\<close>

theorem C7_merge_result_determined:
  assumes "distinct (map note_id L)" and "distinct (map note_id R)"
  shows "fst (mergeNotes L R w) = fst (mergeNotes L R w')
       \<and> pendingOperations (snd (mergeNotes L R w)) =
           pendingOperations w
             @ map (\<lambda>l. new_operation Update Notes (NoteObj l) (clock w)) (localWinners L R)
       \<and> (localWinners L R = [] \<longrightarrow> snd (mergeNotes L R w) = w)
       \<and> ((\<forall>l \<in> set L. \<forall>r \<in> set R.
              note_id l = note_id r \<longrightarrow> note_updatedAt l \<noteq> note_updatedAt r)
            \<longrightarrow> set (fst (mergeNotes L R w)) = set (fst (mergeNotes R L w')))"
  using mergeNotes_result_pure[of L R w w'] queue_mergeNotes[OF assms, of w]
    mergeNotes_no_winner[OF assms, of w] mergeNotes_commute[OF assms, of w w']
  by blast

theorem C7_merge_result_determined_witness:
  "distinct (map note_id [note1, note2_older]) \<and> distinct (map note_id [note1_newer, note2])
   \<and> localWinners [note1, note2_older] [note1_newer, note2] = []
   \<and> note_updatedAt note1 \<noteq> note_updatedAt note1_newer
   \<and> note_updatedAt note2_older \<noteq> note_updatedAt note2
   \<and> snd (mergeNotes [note1, note2_older] [note1_newer, note2] world0) = world0
   \<and> set (fst (mergeNotes [note1, note2_older] [note1_newer, note2] world0)) =
       set (fst (mergeNotes [note1_newer, note2] [note1, note2_older] world_thread1))"
proof -
  have d: "distinct (map note_id [note1, note2_older])"
    "distinct (map note_id [note1_newer, note2])"
    by (simp_all add: note1_def note2_def note1_newer_def note2_older_def)
  have n: "localWinners [note1, note2_older] [note1_newer, note2] = []"
    by (simp add: localWinners_def map_filter_def find_note_def note1_def note2_def
        note1_newer_def note2_older_def)
  have t: "\<forall>l \<in> set [note1, note2_older]. \<forall>r \<in> set [note1_newer, note2].
         note_id l = note_id r \<longrightarrow> note_updatedAt l \<noteq> note_updatedAt r"
    by (simp add: note1_def note2_def note1_newer_def note2_older_def)
  have u: "note_updatedAt note1 \<noteq> note_updatedAt note1_newer"
    "note_updatedAt note2_older \<noteq> note_updatedAt note2"
    by (simp_all add: note1_def note2_def note1_newer_def note2_older_def)
  show ?thesis
    using d n t u C7_merge_result_determined[OF d, of world0 world_thread1] by blast
qed

section \<open>Persistence of the queue\<close>






section \<open>Draining the queue\<close>

lemma replay_result: "fst (replay rem p w) = outcome rem p"
  by (simp add: outcome_def replay_def processPendingNoteOperation_def
      processPendingChatThreadOperation_def processPendingLabelOperation_def
      split: collection.splits optype.splits)

lemma drain_loop_result:
  "fst (drain_loop rem ops ids w) =
     (map (attempted rem) ops, ids @ map op_id (filter (listed rem) ops))"
proof (induction ops arbitrary: ids w)
  case Nil
  then show ?case by simp
next
  case (Cons p ps)
  obtain r w' where rp: "replay rem p w = (r, w')" by (cases "replay rem p w")
  then have o: "outcome rem p = r" using replay_result[of rem p w] by simp
  show ?case
  proof (cases r)
    case (Inl e)
    then show ?thesis using rp o Cons.IH[of ids w']
      by (simp add: attempted_def listed_def split_beta Let_def)
  next
    case (Inr b)
    show ?thesis
    proof (cases b)
      case True
      then show ?thesis using rp o Inr Cons.IH[of "ids @ [op_id p]" w']
        by (simp add: attempted_def listed_def split_beta)
    next
      case False
      then show ?thesis
        using rp o Inr Cons.IH[of "ids @ [op_id p]" w'] Cons.IH[of ids w']
        by (simp add: attempted_def listed_def split_beta Let_def)
    qed
  qed
qed

lemma queue_processPendingOperations:
  "currentUser w = Some u \<Longrightarrow>
   pendingOperations (processPendingOperations rem w) = drained rem (pendingOperations w)"
  by (simp add: processPendingOperations_def split_beta Let_def drain_loop_result drained_def
      pendingOperations_savePendingOperations)

lemma currentUser_processPendingOperations:
  "currentUser (processPendingOperations rem w) = currentUser w"
  using same_mode_processPendingOperations[of w rem] by (simp add: same_mode_def)

lemma outcome_retryCount: "outcome rem (p\<lparr>op_retryCount := n\<rparr>) = outcome rem p"
  by (simp add: outcome_def replay_def processPendingNoteOperation_def
      processPendingChatThreadOperation_def processPendingLabelOperation_def
      split: collection.splits optype.splits)

lemma throwing_replay_stays:
  assumes "currentUser w = Some u" and "pendingOperations w = [p]" and "outcome rem p = Inl e"
  shows "pendingOperations ((processPendingOperations rem ^^ n) w) =
           [p\<lparr>op_retryCount := op_retryCount p + n\<rparr>]
         \<and> currentUser ((processPendingOperations rem ^^ n) w) = Some u"
proof (induction n)
  case 0
  then show ?case using assms by simp
next
  case (Suc n)
  let ?w = "(processPendingOperations rem ^^ n) w"
  have q: "pendingOperations ?w = [p\<lparr>op_retryCount := op_retryCount p + n\<rparr>]"
    and u: "currentUser ?w = Some u"
    using Suc by simp_all
  have "pendingOperations (processPendingOperations rem ?w) =
          [p\<lparr>op_retryCount := op_retryCount p + Suc n\<rparr>]"
    using assms(3)
    by (simp add: queue_processPendingOperations[OF u] q drained_def listed_def attempted_def
        outcome_retryCount)
  then show ?case using u by (simp add: currentUser_processPendingOperations)
qed

lemma failing_replay_three_attempts:
  assumes "currentUser w = Some u" and "pendingOperations w = [p]"
    and "outcome rem p = Inr False" and "op_retryCount p = 0"
  shows "pendingOperations (processPendingOperations rem w) = [p\<lparr>op_retryCount := 1\<rparr>]"
    and "pendingOperations (processPendingOperations rem (processPendingOperations rem w)) =
           [p\<lparr>op_retryCount := 2\<rparr>]"
    and "pendingOperations
           (processPendingOperations rem
              (processPendingOperations rem (processPendingOperations rem w))) = []"
proof -
  let ?w1 = "processPendingOperations rem w"
  let ?w2 = "processPendingOperations rem ?w1"
  have u1: "currentUser ?w1 = Some u" and u2: "currentUser ?w2 = Some u"
    using assms(1) by (simp_all add: currentUser_processPendingOperations)
  show q1: "pendingOperations ?w1 = [p\<lparr>op_retryCount := 1\<rparr>]"
    using assms
    by (simp add: queue_processPendingOperations[OF assms(1)] drained_def listed_def
        attempted_def MAX_RETRY_COUNT_def)
  show q2: "pendingOperations ?w2 = [p\<lparr>op_retryCount := 2\<rparr>]"
    using assms(3)
    by (simp add: queue_processPendingOperations[OF u1] q1 drained_def listed_def
        attempted_def MAX_RETRY_COUNT_def outcome_retryCount)
  show "pendingOperations (processPendingOperations rem ?w2) = []"
    using assms(3)
    by (simp add: queue_processPendingOperations[OF u2] q2 drained_def listed_def
        attempted_def MAX_RETRY_COUNT_def outcome_retryCount)
qed

section \<open>The retry ceiling\<close>

lemma outcome_update_note1_rejecting:
  "outcome remote_rejecting update_note1 = Inl (RemoteFailure ''timeout'')"
  by (simp add: outcome_def replay_def processPendingNoteOperation_def truthy_def
      remote_rejecting_def remote_ok_def update_note1_def)

lemma outcome_update_note1_ok: "outcome remote_ok update_note1 = Inr False"
  by (simp add: outcome_def replay_def processPendingNoteOperation_def truthy_def
      remote_ok_def update_note1_def)

lemma outcome_delete_note1_ok: "outcome remote_ok delete_note1 = Inr True"
  by (simp add: outcome_def replay_def processPendingNoteOperation_def
      remote_ok_def delete_note1_def)

text \<open>
  C4 at the failing inputs. The update of a note whose replay rejects on every attempt is
  still queued after four drains, with retry count 4: the \<^verbatim>\<open>catch\<close> of the loop counts the
  retry and never compares it with \<^verbatim>\<open>MAX_RETRY_COUNT\<close>. The same update, when its replay
  returns \<^verbatim>\<open>false\<close>, is queued after one and after two drains and gone after the third. And
  an update whose replay returns \<^verbatim>\<open>false\<close> once is gone after that one drain when a delete
  with the same id succeeds in it, since the queue is filtered by id.
\<close>

theorem C4_retry_ceiling_at_failing_inputs:
  "pendingOperations
     (processPendingOperations remote_rejecting
        (processPendingOperations remote_rejecting
           (processPendingOperations remote_rejecting
              (processPendingOperations remote_rejecting world_user_queued))))
     = [update_note1\<lparr>op_retryCount := 4\<rparr>]
   \<and> pendingOperations
        (processPendingOperations remote_ok (processPendingOperations remote_ok world_user_queued))
     = [update_note1\<lparr>op_retryCount := 2\<rparr>]
   \<and> pendingOperations
        (processPendingOperations remote_ok
           (processPendingOperations remote_ok
              (processPendingOperations remote_ok world_user_queued)))
     = []
   \<and> pendingOperations (processPendingOperations remote_ok world_two_ops) = []"
proof -
  have u: "currentUser world_user_queued = Some user1"
    and q: "pendingOperations world_user_queued = [update_note1]"
    and r: "op_retryCount update_note1 = 0"
    by (simp_all add: world_user_queued_def world_queued_def update_note1_def)
  have a: "pendingOperations ((processPendingOperations remote_rejecting ^^ 4) world_user_queued)
             = [update_note1\<lparr>op_retryCount := 4\<rparr>]"
    using throwing_replay_stays[OF u q outcome_update_note1_rejecting, of 4] r by simp
  have u2: "currentUser world_two_ops = Some user1"
    by (simp add: world_two_ops_def)
  have q2: "pendingOperations world_two_ops = [update_note1, delete_note1]"
    by (simp add: world_two_ops_def)
  have i: "op_id update_note1 = ''n1''" "op_id delete_note1 = ''n1''"
    by (simp_all add: update_note1_def delete_note1_def)
  have d: "pendingOperations (processPendingOperations remote_ok world_two_ops) = []"
    by (simp add: queue_processPendingOperations[OF u2] q2 drained_def listed_def attempted_def
        outcome_update_note1_ok outcome_delete_note1_ok i r MAX_RETRY_COUNT_def)
  show ?thesis
    using a failing_replay_three_attempts[OF u q outcome_update_note1_ok r] d
    by (simp add: numeral_eq_Suc)
qed

section \<open>Label updates\<close>






section \<open>A collection sync that throws\<close>

















section \<open>Traces and storage of the local operations\<close>



lemma remote_calls_simps:
  "remote_calls [] = []"
  "remote_calls (StorageGet k # tr) = remote_calls tr"
  "remote_calls (StorageSet k # tr) = remote_calls tr"
  "remote_calls (Remote c # tr) = c # remote_calls tr"
  "remote_calls (IndexNote i # tr) = remote_calls tr"
  "remote_calls (UnindexNote i # tr) = remote_calls tr"
  by (simp_all add: remote_calls_def map_filter_def)


lemma findIndex_Some: "findIndex P xs = Some i \<Longrightarrow> i < length xs \<and> P (xs ! i)"
proof (induction xs arbitrary: i)
  case Nil
  then show ?case by simp
next
  case (Cons x xs)
  then show ?case by (cases "P x") auto
qed

lemma in_upsert: "note \<in> set (upsert note notes)"
  by (auto simp: upsert_def set_update_memI dest: findIndex_Some split: option.splits)


lemma getLocalNotes_result: "storeOk w \<Longrightarrow> fst (getLocalNotes uid w) = stored_notes (''notes_'' @ uid) w"
  by (simp add: getLocalNotes_def getItem_def stored_notes_def Let_def
      split: option.splits blob.splits)

lemma trace_updateLocalNote:
  "trace (updateLocalNote uid note w) =
     trace w @ [StorageGet (''notes_'' @ uid), StorageSet (''notes_'' @ uid)]"
  by (simp add: updateLocalNote_def getLocalNotes_def saveLocalNotes_def getItem_def setItem_def
      Let_def split: option.splits blob.splits)

lemma store_updateLocalNote:
  "storeOk w \<Longrightarrow>
   store (updateLocalNote uid note w) =
     (store w)(''notes_'' @ uid \<mapsto> NotesJson (upsert note (stored_notes (''notes_'' @ uid) w)))"
  by (simp add: updateLocalNote_def getLocalNotes_def saveLocalNotes_def getItem_def setItem_def
      stored_notes_def upsert_def Let_def split: option.splits blob.splits)

lemma queue_updateLocalNote:
  "pendingOperations (updateLocalNote uid note w) = pendingOperations w"
  by (simp add: updateLocalNote_def getLocalNotes_def saveLocalNotes_def getItem_def setItem_def
      Let_def split: option.splits blob.splits)

lemma trace_addPendingOperation:
  "trace (addPendingOperation ty coll dat w) = trace w @ [StorageSet ''pendingOperations'']"
  by (simp add: addPendingOperation_def savePendingOperations_def setItem_def Let_def)

lemma store_addPendingOperation:
  "k \<noteq> ''pendingOperations'' \<Longrightarrow> store (addPendingOperation ty coll dat w) k = store w k"
  by (simp add: addPendingOperation_def savePendingOperations_def setItem_def Let_def)

lemma trace_indexNote:
  "trace (indexNote rem note uid w) = trace w
   \<or> trace (indexNote rem note uid w) = trace w @ [IndexNote (note_id note)]"
  by (simp add: indexNote_def Let_def split: sum.splits)

lemma store_indexNote: "store (indexNote rem note uid w) = store w"
  by (simp add: indexNote_def Let_def split: sum.splits)

lemma queue_indexNote: "pendingOperations (indexNote rem note uid w) = pendingOperations w"
  by (simp add: indexNote_def Let_def split: sum.splits)

lemma mode_updateLocalNote:
  "isOnline (updateLocalNote uid note w) = isOnline w"
  "clock (updateLocalNote uid note w) = clock w"
  "storeOk (updateLocalNote uid note w) = storeOk w"
  using same_mode_updateLocalNote[of w uid "note"] by (simp_all add: same_mode_def)

section \<open>Saving a note\<close>

lemma saveNote_returns: "fst (saveNote rem n w) = Returned"
  by (simp add: saveNote_def Let_def split: option.splits sum.splits)

lemma saveNote_guest:
  "currentUser w = None \<Longrightarrow> snd (saveNote rem n w) = updateLocalNote ''guest'' n w"
  by (simp add: saveNote_def Let_def localUserId_def)

lemma saveNote_guest_id:
  "currentUser w = Some u \<Longrightarrow> user_id u = ''guest'' \<Longrightarrow>
   snd (saveNote rem n w) = updateLocalNote ''guest'' n w"
  by (simp add: saveNote_def Let_def localUserId_def)

lemma saveNote_offline:
  "currentUser w = Some u \<Longrightarrow> user_id u \<noteq> ''guest'' \<Longrightarrow> \<not> isOnline w \<Longrightarrow>
   snd (saveNote rem n w) =
     addPendingOperation Update Notes (NoteObj n) (updateLocalNote (localUserId (Some u)) n w)"
  by (simp add: saveNote_def Let_def mode_updateLocalNote)

lemma saveNote_remote_ok:
  "currentUser w = Some u \<Longrightarrow> user_id u \<noteq> ''guest'' \<Longrightarrow> isOnline w \<Longrightarrow>
   r_saveNote rem n (user_id u) = Inr (Some saved) \<Longrightarrow>
   snd (saveNote rem n w) =
     indexNote rem n (user_id u)
       (called (SaveNote n (user_id u)) (updateLocalNote (localUserId (Some u)) n w))"
  by (simp add: saveNote_def Let_def mode_updateLocalNote)

lemma saveNote_remote_failed:
  "currentUser w = Some u \<Longrightarrow> user_id u \<noteq> ''guest'' \<Longrightarrow> isOnline w \<Longrightarrow>
   r_saveNote rem n (user_id u) = Inr None \<or> r_saveNote rem n (user_id u) = Inl e \<Longrightarrow>
   snd (saveNote rem n w) =
     addPendingOperation Update Notes (NoteObj n)
       (called (SaveNote n (user_id u)) (updateLocalNote (localUserId (Some u)) n w))"
  by (auto simp: saveNote_def Let_def mode_updateLocalNote)

text \<open>The four ways through \<^verbatim>\<open>saveNote\<close>, by what follows the local write.\<close>

lemma saveNote_cases:
  obtains
    (local_only) "\<not> (\<exists>u. currentUser w = Some u \<and> user_id u \<noteq> ''guest'')"
      "snd (saveNote rem n w) = updateLocalNote ''guest'' n w"
      "localUserId (currentUser w) = ''guest''"
  | (offline) u where "currentUser w = Some u" "user_id u \<noteq> ''guest''" "\<not> isOnline w"
      "snd (saveNote rem n w) =
         addPendingOperation Update Notes (NoteObj n)
           (updateLocalNote (localUserId (currentUser w)) n w)"
  | (synced) u saved where "currentUser w = Some u" "user_id u \<noteq> ''guest''" "isOnline w"
      "r_saveNote rem n (user_id u) = Inr (Some saved)"
      "snd (saveNote rem n w) =
         indexNote rem n (user_id u)
           (called (SaveNote n (user_id u)) (updateLocalNote (localUserId (currentUser w)) n w))"
  | (failed) u where "currentUser w = Some u" "user_id u \<noteq> ''guest''" "isOnline w"
      "\<forall>saved. r_saveNote rem n (user_id u) \<noteq> Inr (Some saved)"
      "snd (saveNote rem n w) =
         addPendingOperation Update Notes (NoteObj n)
           (called (SaveNote n (user_id u)) (updateLocalNote (localUserId (currentUser w)) n w))"
proof (cases "currentUser w")
  case None
  then show ?thesis using local_only saveNote_guest[OF None] by (simp add: localUserId_def)
next
  case (Some u)
  show ?thesis
  proof (cases "user_id u = ''guest''")
    case True
    then show ?thesis using local_only Some saveNote_guest_id[OF Some True]
      by (simp add: localUserId_def)
  next
    case False
    show ?thesis
    proof (cases "isOnline w")
      case off: False
      then show ?thesis using offline[OF Some False] saveNote_offline[OF Some False off] Some
        by simp
    next
      case on: True
      show ?thesis
      proof (cases "r_saveNote rem n (user_id u)")
        case (Inl e)
        then show ?thesis
          using failed[OF Some False on] saveNote_remote_failed[OF Some False on, of rem n e] Some
          by simp
      next
        case (Inr r)
        show ?thesis
        proof (cases r)
          case None
          then show ?thesis
            using Inr failed[OF Some False on]
              saveNote_remote_failed[OF Some False on, of rem n] Some
            by simp
        next
          case (Some saved)
          then show ?thesis
            using Inr synced[OF \<open>currentUser w = Some u\<close> False on]
              saveNote_remote_ok[OF \<open>currentUser w = Some u\<close> False on, of rem n saved]
              \<open>currentUser w = Some u\<close>
            by simp
        qed
      qed
    qed
  qed
qed

lemma new_effects_append: "trace w' = trace w @ es \<Longrightarrow> new_effects w w' = es"
  by (simp add: new_effects_def)

lemma trace_called: "trace (called c w) = trace w @ [Remote c]"
  by (simp add: called_def)

lemma store_called: "store (called c w) = store w"
  by (simp add: called_def)

lemma queue_called: "pendingOperations (called c w) = pendingOperations w"
  by (simp add: called_def)

lemma clock_called: "clock (called c w) = clock w"
  by (simp add: called_def)

lemma saveNote_effects:
  "\<exists>rest. new_effects w (snd (saveNote rem n w)) =
            [StorageGet (''notes_'' @ localUserId (currentUser w)),
             StorageSet (''notes_'' @ localUserId (currentUser w))] @ rest
          \<and> (remote_calls rest = []
               \<and> \<not> (\<exists>u. currentUser w = Some u \<and> user_id u \<noteq> ''guest'' \<and> isOnline w)
             \<or> (\<exists>u. currentUser w = Some u \<and> user_id u \<noteq> ''guest'' \<and> isOnline w
                    \<and> remote_calls rest = [SaveNote n (user_id u)]))"
proof (cases rule: saveNote_cases[of w rem n])
  case local_only
  then show ?thesis
    by (intro exI[of _ "[]"])
      (auto simp: trace_updateLocalNote remote_calls_simps intro!: new_effects_append)
next
  case (offline u)
  then show ?thesis
    by (intro exI[of _ "[StorageSet ''pendingOperations'']"])
      (auto simp: trace_updateLocalNote trace_addPendingOperation remote_calls_simps
        intro!: new_effects_append)
next
  case (synced u saved)
  let ?w2 = "called (SaveNote n (user_id u)) (updateLocalNote (localUserId (currentUser w)) n w)"
  from trace_indexNote[of rem n "user_id u" ?w2] show ?thesis
  proof
    assume "trace (indexNote rem n (user_id u) ?w2) = trace ?w2"
    then show ?thesis using synced
      by (intro exI[of _ "[Remote (SaveNote n (user_id u))]"])
        (auto simp: trace_updateLocalNote trace_called remote_calls_simps
          intro!: new_effects_append)
  next
    assume "trace (indexNote rem n (user_id u) ?w2) = trace ?w2 @ [IndexNote (note_id n)]"
    then show ?thesis using synced
      by (intro exI[of _ "[Remote (SaveNote n (user_id u)), IndexNote (note_id n)]"])
        (auto simp: trace_updateLocalNote trace_called remote_calls_simps
          intro!: new_effects_append)
  qed
next
  case (failed u)
  then show ?thesis
    by (intro exI[of _ "[Remote (SaveNote n (user_id u)), StorageSet ''pendingOperations'']"])
      (auto simp: trace_updateLocalNote trace_called trace_addPendingOperation
        remote_calls_simps intro!: new_effects_append)
qed

lemma saveNote_stored:
  assumes "storeOk w"
  shows "n \<in> set (stored_notes (''notes_'' @ localUserId (currentUser w)) (snd (saveNote rem n w)))"
proof -
  let ?k = "''notes_'' @ localUserId (currentUser w)"
  have a: "store (updateLocalNote (localUserId (currentUser w)) n w) ?k =
             Some (NotesJson (upsert n (stored_notes ?k w)))"
    by (simp add: store_updateLocalNote[OF assms])
  have "store (snd (saveNote rem n w)) ?k = Some (NotesJson (upsert n (stored_notes ?k w)))"
  proof (cases rule: saveNote_cases[of w rem n])
    case local_only
    then show ?thesis using a by simp
  next
    case (offline u)
    then show ?thesis using a by (simp add: store_addPendingOperation)
  next
    case (synced u saved)
    then show ?thesis using a by (simp add: store_indexNote store_called)
  next
    case (failed u)
    then show ?thesis using a by (simp add: store_addPendingOperation store_called)
  qed
  then show ?thesis by (simp add: stored_notes_def in_upsert)
qed

lemma saveNote_enqueues:
  assumes "currentUser w = Some u" and "user_id u \<noteq> ''guest''" and "isOnline w"
    and "r_saveNote rem n (user_id u) = Inr None \<or> r_saveNote rem n (user_id u) = Inl e"
  shows "pendingOperations (snd (saveNote rem n w)) =
           pendingOperations w @ [new_operation Update Notes (NoteObj n) (clock w)]"
  by (simp add: saveNote_remote_failed[OF assms] pendingOperations_addPendingOperation
      queue_called clock_called queue_updateLocalNote mode_updateLocalNote)

lemma db_saveNote_returns: "\<exists>r. fst (db_saveNote sb n uid) = Inr r"
  by (simp add: db_saveNote_def db_updateNote_def db_createNote_def Let_def
      split: sbresult.splits)

lemma db_saveNote_not_found:
  assumes "note_id n \<noteq> []" and "note_id n \<noteq> ''temp''"
    and "sb_update sb (note_id n) n = SbError code"
  shows "snd (db_saveNote sb n uid) = [SbUpdate (note_id n), SbInsert uid]"
    and "fst (db_saveNote sb n uid) =
           Inr (case sb_insert sb uid n of Row created \<Rightarrow> Some created | SbError c \<Rightarrow> None)"
  using assms
  by (simp_all add: db_saveNote_def db_updateNote_def db_createNote_def Let_def
      split: sbresult.splits)

text \<open>
  C5: whatever the user, the connectivity, the state of AsyncStorage and the answers of the
  remote store, \<^verbatim>\<open>saveNote\<close> returns normally; its first two effects are the read and the
  write of the local collection of the user (of \<^verbatim>\<open>'guest'\<close> when there is none), and while
  AsyncStorage accepts the write the note is in that collection afterwards. A remote call
  is made only when a user with an id other than \<^verbatim>\<open>'guest'\<close> is signed in and the device is
  online, and then it is the one call \<^verbatim>\<open>databaseService.saveNote\<close>; when it returns \<^verbatim>\<open>null\<close> or
  throws, an update of the note is appended to the pending queue. \<^verbatim>\<open>databaseService.saveNote\<close>
  itself never throws, and when its update fails (not found included) it goes on to insert
  the note.
\<close>

theorem C5_saveNote_local_first:
  "fst (saveNote rem n w) = Returned
   \<and> take 2 (new_effects w (snd (saveNote rem n w))) =
       [StorageGet (''notes_'' @ localUserId (currentUser w)),
        StorageSet (''notes_'' @ localUserId (currentUser w))]
   \<and> (storeOk w \<longrightarrow>
        n \<in> set (stored_notes (''notes_'' @ localUserId (currentUser w)) (snd (saveNote rem n w))))
   \<and> (remote_calls (new_effects w (snd (saveNote rem n w))) \<noteq> [] \<longrightarrow>
        (\<exists>v. currentUser w = Some v \<and> user_id v \<noteq> ''guest'' \<and> isOnline w))
   \<and> (currentUser w = Some u \<and> user_id u \<noteq> ''guest'' \<and> isOnline w \<longrightarrow>
        remote_calls (new_effects w (snd (saveNote rem n w))) = [SaveNote n (user_id u)])
   \<and> (currentUser w = Some u \<and> user_id u \<noteq> ''guest'' \<and> isOnline w
        \<and> (r_saveNote rem n (user_id u) = Inr None \<or> r_saveNote rem n (user_id u) = Inl e) \<longrightarrow>
        pendingOperations (snd (saveNote rem n w)) =
          pendingOperations w @ [new_operation Update Notes (NoteObj n) (clock w)])
   \<and> (\<exists>r. fst (db_saveNote sb n uid) = Inr r)
   \<and> (note_id n \<noteq> [] \<and> note_id n \<noteq> ''temp'' \<and> sb_update sb (note_id n) n = SbError code \<longrightarrow>
        snd (db_saveNote sb n uid) = [SbUpdate (note_id n), SbInsert uid]
        \<and> fst (db_saveNote sb n uid) =
            Inr (case sb_insert sb uid n of Row created \<Rightarrow> Some created | SbError c \<Rightarrow> None))"
proof -
  obtain rest where
    r: "new_effects w (snd (saveNote rem n w)) =
          [StorageGet (''notes_'' @ localUserId (currentUser w)),
           StorageSet (''notes_'' @ localUserId (currentUser w))] @ rest"
    and c: "remote_calls rest = []
               \<and> \<not> (\<exists>u. currentUser w = Some u \<and> user_id u \<noteq> ''guest'' \<and> isOnline w)
             \<or> (\<exists>u. currentUser w = Some u \<and> user_id u \<noteq> ''guest'' \<and> isOnline w
                    \<and> remote_calls rest = [SaveNote n (user_id u)])"
    using saveNote_effects[of w rem n] by blast
  have rc: "remote_calls (new_effects w (snd (saveNote rem n w))) = remote_calls rest"
    by (simp add: r remote_calls_simps)
  have p2: "take 2 (new_effects w (snd (saveNote rem n w))) =
       [StorageGet (''notes_'' @ localUserId (currentUser w)),
        StorageSet (''notes_'' @ localUserId (currentUser w))]"
    by (simp add: r)
  have p4: "remote_calls (new_effects w (snd (saveNote rem n w))) \<noteq> [] \<longrightarrow>
        (\<exists>v. currentUser w = Some v \<and> user_id v \<noteq> ''guest'' \<and> isOnline w)"
    using c rc by auto
  have p5: "currentUser w = Some u \<and> user_id u \<noteq> ''guest'' \<and> isOnline w \<longrightarrow>
        remote_calls (new_effects w (snd (saveNote rem n w))) = [SaveNote n (user_id u)]"
    using c rc by auto
  have p6: "currentUser w = Some u \<and> user_id u \<noteq> ''guest'' \<and> isOnline w
        \<and> (r_saveNote rem n (user_id u) = Inr None \<or> r_saveNote rem n (user_id u) = Inl e) \<longrightarrow>
        pendingOperations (snd (saveNote rem n w)) =
          pendingOperations w @ [new_operation Update Notes (NoteObj n) (clock w)]"
    using saveNote_enqueues[of w u rem n e] by blast
  show ?thesis
    using saveNote_returns[of rem n w] p2 saveNote_stored[of w n rem] p4 p5 p6
      db_saveNote_returns[of sb n uid] db_saveNote_not_found[of n sb code uid]
    by blast
qed

theorem C5_saveNote_local_first_witness:
  "storeOk world_signed_in \<and> currentUser world_signed_in = Some user1
   \<and> user_id user1 \<noteq> ''guest'' \<and> isOnline world_signed_in
   \<and> r_saveNote remote_database_down note1 (user_id user1) = Inr None
   \<and> note_id note1 \<noteq> [] \<and> note_id note1 \<noteq> ''temp''
   \<and> sb_update supabase_down (note_id note1) note1 = SbError ''PGRST116''
   \<and> fst (saveNote remote_database_down note1 world_signed_in) = Returned
   \<and> take 2 (new_effects world_signed_in (snd (saveNote remote_database_down note1 world_signed_in)))
       = [StorageGet ''notes_u1'', StorageSet ''notes_u1'']
   \<and> note1 \<in> set (stored_notes ''notes_u1''
                     (snd (saveNote remote_database_down note1 world_signed_in)))
   \<and> remote_calls
        (new_effects world_signed_in (snd (saveNote remote_database_down note1 world_signed_in)))
       = [SaveNote note1 ''u1'']
   \<and> pendingOperations (snd (saveNote remote_database_down note1 world_signed_in))
       = [update_note1]
   \<and> snd (db_saveNote supabase_down note1 ''u1'') = [SbUpdate ''n1'', SbInsert ''u1'']"
proof -
  have h: "storeOk world_signed_in" "currentUser world_signed_in = Some user1"
    "user_id user1 \<noteq> ''guest''" "isOnline world_signed_in" "user_id user1 = ''u1''"
    "pendingOperations world_signed_in = []" "clock world_signed_in = 1000"
    by (simp_all add: world_signed_in_def world0_def user1_def)
  have i: "note_id note1 \<noteq> []" "note_id note1 \<noteq> ''temp''" "note_id note1 = ''n1''"
    by (simp_all add: note1_def)
  have s: "sb_update supabase_down (note_id note1) note1 = SbError ''PGRST116''"
    by (simp add: supabase_down_def)
  have f: "r_saveNote remote_database_down note1 (user_id user1) = Inr None"
    using i by (simp add: remote_database_down_def remote_ok_def db_saveNote_def
        db_updateNote_def db_createNote_def supabase_down_def Let_def)
  have l: "localUserId (currentUser world_signed_in) = ''u1''"
    by (simp add: localUserId_def h)
  have o: "new_operation Update Notes (NoteObj note1) 1000 = update_note1"
    using i by (simp add: new_operation_def update_note1_def)
  show ?thesis
    using C5_saveNote_local_first[of remote_database_down note1 world_signed_in user1
        "RemoteFailure ''none''" supabase_down "''u1''" "''PGRST116''"] h i s f l o
    by simp
qed

section \<open>Guest mode\<close>



















end
